theory Spec2Isabelle
  imports Complex_Main "HOL-Library.Word"
begin

section \<open>Weatherly: the push-notification backend\<close>

text \<open>
  A shallow embedding of the Express server of the repository (the second file of
  \<^verbatim>\<open>src/unnamed/part_000\<close>): the subscribe, unsubscribe and check handlers, the
  push dispatcher and the two-hour scheduler cycle.

  The three external collaborators are parameters of the model (the record \<open>env\<close>):
  the weather route queried with axios, the web-push transport, and the availability of
  the MongoDB collection. Everything the server mutates is in the record \<open>state\<close>:
  the documents of the collection, the log of push attempts handed to the transport and
  the number of store calls made so far.
\<close>

subsection \<open>JavaScript strings\<close>

text \<open>
  A JavaScript string is a sequence of UTF-16 code units. The regular expression of the
  subscribe handler has no \<^verbatim>\<open>u\<close> flag, so it works on code units as well.
\<close>

type_synonym jsstring = "16 word list"

definition js :: "string \<Rightarrow> jsstring" where
  "js s = map of_char s"

definition comma :: "16 word" where
  "comma = 0x2C"

text \<open>
  The class \<^verbatim>\<open>\s\<close> of ECMAScript, which is also what \<^verbatim>\<open>trim\<close> strips: the
  WhiteSpace and LineTerminator code points.
\<close>

definition is_space :: "16 word \<Rightarrow> bool" where
  "is_space c =
     (c \<in> {0x09, 0x0A, 0x0B, 0x0C, 0x0D, 0x20, 0xA0, 0x1680, 0x2028, 0x2029,
            0x202F, 0x205F, 0x3000, 0xFEFF}
      \<or> (0x2000 \<le> c \<and> c \<le> 0x200A))"

text \<open>
  \<^verbatim>\<open>location.replace(/\s*,\s*/g, ',')\<close>. The scan goes left to right. At a position
  the pattern matches exactly when the maximal run of white space starting there is
  followed by a comma (backtracking to a shorter run cannot help: the next code unit
  would be white space, not a comma); the match then takes all white space after the
  comma too, is replaced by one comma, and the scan resumes behind it. Where the pattern
  does not match, the code unit is copied and the scan moves one position on.
\<close>

function normalizeLocation :: "jsstring \<Rightarrow> jsstring" where
  "normalizeLocation [] = []"
| "normalizeLocation (c # cs) =
     (case dropWhile is_space (c # cs) of
        [] \<Rightarrow> c # normalizeLocation cs
      | x # ys \<Rightarrow>
          if x = comma then comma # normalizeLocation (dropWhile is_space ys)
          else c # normalizeLocation cs)"
  by pat_completeness auto
termination
proof (relation "measure length", goal_cases)
  case 1
  show ?case by simp
next
  case (2 c cs)
  show ?case by simp
next
  case (3 c cs x ys)
  have "length (dropWhile is_space ys) \<le> length ys"
    by (rule length_dropWhile_le)
  moreover have "length (x # ys) \<le> length (c # cs)"
    using 3(1) length_dropWhile_le [of is_space "c # cs"] by simp
  ultimately show ?case by simp
next
  case (4 c cs x ys)
  show ?case by simp
qed

text \<open>
  \<^verbatim>\<open>location.split(',')\<close>: the parts between the commas; never empty (the empty
  string splits into one empty part).
\<close>

fun split_comma :: "jsstring \<Rightarrow> jsstring list" where
  "split_comma [] = [[]]"
| "split_comma (c # cs) =
     (if c = comma then [] # split_comma cs
      else (case split_comma cs of
              [] \<Rightarrow> [[c]]
            | p # ps \<Rightarrow> (c # p) # ps))"

definition trim :: "jsstring \<Rightarrow> jsstring" where
  "trim s = rev (dropWhile is_space (rev (dropWhile is_space s)))"

text \<open>\<^verbatim>\<open>location.split(',')[0]\<close>, the label of the failure notifications.\<close>

definition firstPart :: "jsstring \<Rightarrow> jsstring" where
  "firstPart l = (case split_comma l of [] \<Rightarrow> [] | p # ps \<Rightarrow> p)"

subsection \<open>Dates\<close>

text \<open>
  A \<^verbatim>\<open>Date\<close> is its time value read in local time: milliseconds on the local
  wall clock. \<open>getHours\<close> is HourFromTime and \<open>setHours\<close> is
  MakeDate(Day(t), MakeTime(hour, min, sec, ms)) of ECMAScript, so an hour of 24 or more
  carries into the next day. Changes of the offset to UTC (daylight saving) are not
  modelled.
\<close>

type_synonym date = int

definition msPerHour :: int where
  "msPerHour = 3600000"

definition msPerDay :: int where
  "msPerDay = 86400000"

definition getHours :: "date \<Rightarrow> int" where
  "getHours t = (t div msPerHour) mod 24"

definition setHours :: "date \<Rightarrow> int \<Rightarrow> int \<Rightarrow> int \<Rightarrow> int \<Rightarrow> date" where
  "setHours t h m s ms =
     (t div msPerDay) * msPerDay + (h * msPerHour + m * 60000 + s * 1000 + ms)"

text \<open>The wall-clock reading \<open>h:m\<close> on local day \<open>d\<close>, for writing examples.\<close>

definition clock :: "int \<Rightarrow> int \<Rightarrow> int \<Rightarrow> date" where
  "clock d h m = d * msPerDay + h * msPerHour + m * 60000"

text \<open>
  \<^verbatim>\<open>next.setHours(next.getHours() + (2 - (next.getHours() % 1)), 0, 0, 0)\<close>, with
  the source's \<^verbatim>\<open>% 1\<close>.
\<close>

definition calculateNextNotificationTime :: "date \<Rightarrow> date" where
  "calculateNextNotificationTime now =
     setHours now (getHours now + (2 - (getHours now mod 1))) 0 0 0"

subsection \<open>Subscriptions and the collection\<close>

text \<open>
  The body of \<^verbatim>\<open>POST /api/subscribe\<close> is \<^verbatim>\<open>{subscription, location}\<close>. The
  subscription is the JSON of a PushSubscription: its endpoint is a string and its keys
  an object of two strings; either may be absent, and so may the subscription itself.
  The location is any JSON value, or absent. Further fields of the subscription object
  (such as \<^verbatim>\<open>expirationTime\<close>) are spread into the document and read nowhere; they are
  left out.
\<close>

record push_keys =
  p256dh :: jsstring
  auth :: jsstring

record subscription_json =
  endpoint_field :: "jsstring option"
  keys_field :: "push_keys option"

datatype json =
    JUndefined
  | JNull
  | JBool bool
  | JNumber real
  | JString jsstring
  | JArray
  | JObject

record subscribe_body =
  subscription_field :: "subscription_json option"
  location_field :: json

text \<open>
  \<open>subscription_doc\<close> is the object \<^verbatim>\<open>subDoc\<close> that the handler builds and
  passes to \<^verbatim>\<open>$set\<close>; a stored document has the \<^verbatim>\<open>_id\<close> of the collection
  in addition. A document is also what the dispatcher hands to web-push as the
  subscription.
\<close>

record subscription_doc =
  endpoint :: jsstring
  keys :: push_keys
  createdAt :: date
  lastNotified :: "date option"
  location :: jsstring
  nextNotificationTime :: date

record stored_doc = subscription_doc +
  doc_id :: nat

subsection \<open>Weather data and notifications\<close>

record hour_sample =
  time :: jsstring
  temp_c :: real
  condition_text :: jsstring
  condition_icon :: jsstring
  cloud :: real
  chance_of_rain :: real
  wind_kph :: real
  wind_dir :: jsstring
  uv :: real

text \<open>
  What the weather route answers: \<open>Forecast hs\<close> is a body whose
  \<^verbatim>\<open>forecast.forecastday[0].hour\<close> is the array \<open>hs\<close> (an entry may be null);
  \<open>NoForecast\<close> is a body without that path.
\<close>

datatype weather_data =
    NoForecast
  | Forecast "hour_sample option list"

text \<open>
  The payloads. The two weather notifications are fixed templates over the location and
  one hourly sample (with \<^verbatim>\<open>data.type\<close> \<^verbatim>\<open>current_weather\<close> and
  \<^verbatim>\<open>forecast\<close>); their text is not modelled. A failure notification is given by
  its title, body and icon.
\<close>

datatype payload =
    CurrentNotification jsstring hour_sample
  | ForecastNotification jsstring hour_sample
  | FailureNotification jsstring jsstring jsstring

datatype push_result =
    Delivered
  | PushFailed "nat option"

datatype error =
    TypeError
  | UpstreamError
  | MissingHourlyData
  | StoreError
  | PushError "nat option"

text \<open>An entry of the array that \<^verbatim>\<open>Promise.allSettled\<close> resolves to.\<close>

datatype outcome =
    Fulfilled
  | Rejected error

datatype reply =
    Success
  | ErrorMessage string
  | ErrorOf error
  | Subscribed jsstring
  | NoBody

record response =
  status :: nat
  reply :: reply

subsection \<open>The environment and the state\<close>

text \<open>
  \<open>now\<close> is what \<^verbatim>\<open>new Date()\<close> reads (one reading for a whole request or
  cycle). \<open>weather_api name region country\<close> is the answer of
  \<^verbatim>\<open>axios.get\<close> on the weather route, \<open>None\<close> when the request fails.
  \<open>webpush e p\<close> is what the transport reports for the payload \<open>p\<close> sent to the
  endpoint \<open>e\<close>, a failure with its \<^verbatim>\<open>statusCode\<close> if it has one.
  \<open>store_down n\<close> says that the \<open>n\<close>-th call to the collection is rejected.
  \<open>new_id\<close> is the \<^verbatim>\<open>_id\<close> that the collection gives to an inserted document.
\<close>

record env =
  now :: date
  weather_api :: "jsstring \<Rightarrow> jsstring \<Rightarrow> jsstring \<Rightarrow> weather_data option"
  webpush :: "jsstring \<Rightarrow> payload \<Rightarrow> push_result"
  store_down :: "nat \<Rightarrow> bool"
  new_id :: nat

record state =
  docs :: "stored_doc list"
  sent :: "(jsstring \<times> payload) list"
  calls :: nat

subsection \<open>The operations of the collection\<close>

text \<open>
  The changes that \<^verbatim>\<open>updateOne\<close> with \<^verbatim>\<open>$set\<close> and \<^verbatim>\<open>upsert\<close>,
  \<^verbatim>\<open>deleteOne\<close> and \<^verbatim>\<open>updateMany\<close> make to the documents. \<^verbatim>\<open>$set\<close>
  writes the fields of \<^verbatim>\<open>subDoc\<close> and leaves the \<^verbatim>\<open>_id\<close>; \<^verbatim>\<open>updateOne\<close>
  and \<^verbatim>\<open>deleteOne\<close> act on the first document with the endpoint.
\<close>

definition set_fields :: "subscription_doc \<Rightarrow> stored_doc \<Rightarrow> stored_doc" where
  "set_fields s d =
     d\<lparr>endpoint := endpoint s, keys := keys s, createdAt := createdAt s,
       lastNotified := lastNotified s, location := location s,
       nextNotificationTime := nextNotificationTime s\<rparr>"

definition insert_doc :: "subscription_doc \<Rightarrow> nat \<Rightarrow> stored_doc" where
  "insert_doc s i =
     \<lparr>endpoint = endpoint s, keys = keys s, createdAt = createdAt s,
       lastNotified = lastNotified s, location = location s,
       nextNotificationTime = nextNotificationTime s, doc_id = i\<rparr>"

fun upsert_docs :: "jsstring \<Rightarrow> subscription_doc \<Rightarrow> nat \<Rightarrow> stored_doc list \<Rightarrow> stored_doc list" where
  "upsert_docs e s i [] = [insert_doc s i]"
| "upsert_docs e s i (d # ds) =
     (if endpoint d = e then set_fields s d # ds else d # upsert_docs e s i ds)"

fun delete_docs :: "jsstring \<Rightarrow> stored_doc list \<Rightarrow> stored_doc list" where
  "delete_docs e [] = []"
| "delete_docs e (d # ds) = (if endpoint d = e then ds else d # delete_docs e ds)"

fun findOne_docs :: "jsstring \<Rightarrow> stored_doc list \<Rightarrow> stored_doc option" where
  "findOne_docs e [] = None"
| "findOne_docs e (d # ds) = (if endpoint d = e then Some d else findOne_docs e ds)"

definition notified :: "date \<Rightarrow> jsstring \<Rightarrow> stored_doc \<Rightarrow> stored_doc" where
  "notified t l d =
     (if location d = l
      then d\<lparr>lastNotified := Some t, nextNotificationTime := calculateNextNotificationTime t\<rparr>
      else d)"

text \<open>A call to the collection either is rejected or takes effect; it counts either way.\<close>

definition updateOne :: "env \<Rightarrow> jsstring \<Rightarrow> subscription_doc \<Rightarrow> state \<Rightarrow> (error + unit) \<times> state" where
  "updateOne env e s st =
     (if store_down env (calls st) then (Inl StoreError, st\<lparr>calls := calls st + 1\<rparr>)
      else (Inr (), st\<lparr>docs := upsert_docs e s (new_id env) (docs st), calls := calls st + 1\<rparr>))"

definition deleteOne :: "env \<Rightarrow> jsstring \<Rightarrow> state \<Rightarrow> (error + nat) \<times> state" where
  "deleteOne env e st =
     (if store_down env (calls st) then (Inl StoreError, st\<lparr>calls := calls st + 1\<rparr>)
      else (Inr (length (docs st) - length (delete_docs e (docs st))),
            st\<lparr>docs := delete_docs e (docs st), calls := calls st + 1\<rparr>))"

definition findOne :: "env \<Rightarrow> jsstring \<Rightarrow> state \<Rightarrow> (error + stored_doc option) \<times> state" where
  "findOne env e st =
     (if store_down env (calls st) then (Inl StoreError, st\<lparr>calls := calls st + 1\<rparr>)
      else (Inr (findOne_docs e (docs st)), st\<lparr>calls := calls st + 1\<rparr>))"

definition find_location :: "env \<Rightarrow> jsstring \<Rightarrow> state \<Rightarrow> (error + stored_doc list) \<times> state" where
  "find_location env l st =
     (if store_down env (calls st) then (Inl StoreError, st\<lparr>calls := calls st + 1\<rparr>)
      else (Inr (filter (\<lambda>d. location d = l) (docs st)), st\<lparr>calls := calls st + 1\<rparr>))"

definition find_all :: "env \<Rightarrow> state \<Rightarrow> (error + stored_doc list) \<times> state" where
  "find_all env st =
     (if store_down env (calls st) then (Inl StoreError, st\<lparr>calls := calls st + 1\<rparr>)
      else (Inr (docs st), st\<lparr>calls := calls st + 1\<rparr>))"

definition updateMany :: "env \<Rightarrow> jsstring \<Rightarrow> state \<Rightarrow> (error + unit) \<times> state" where
  "updateMany env l st =
     (if store_down env (calls st) then (Inl StoreError, st\<lparr>calls := calls st + 1\<rparr>)
      else (Inr (), st\<lparr>docs := map (notified (now env) l) (docs st), calls := calls st + 1\<rparr>))"

subsection \<open>The weather gateway\<close>

text \<open>
  \<open>fetchWeatherData\<close>: the destructuring takes the first three parts of the split;
  \<^verbatim>\<open>region.trim()\<close> and \<^verbatim>\<open>country.trim()\<close> are evaluated for the arguments of
  \<^verbatim>\<open>axios.get\<close>, and on an absent part (\<^verbatim>\<open>undefined\<close>) they throw a TypeError
  before the request is made. The error is logged and thrown again.
\<close>

definition fetchWeatherData :: "env \<Rightarrow> jsstring \<Rightarrow> error + weather_data" where
  "fetchWeatherData env l =
     (case split_comma l of
        city # region # country # rest \<Rightarrow>
          (case weather_api env (trim city) (trim region) (trim country) of
             None \<Rightarrow> Inl UpstreamError
           | Some w \<Rightarrow> Inr w)
      | _ \<Rightarrow> Inl TypeError)"

text \<open>\<^verbatim>\<open>hour[i]\<close>, \<open>None\<close> where the entry is missing or null.\<close>

definition hour_at :: "hour_sample option list \<Rightarrow> int \<Rightarrow> hour_sample option" where
  "hour_at hs i = (if 0 \<le> i \<and> nat i < length hs then hs ! nat i else None)"

text \<open>
  The first half of the two \<^verbatim>\<open>try\<close> blocks (in
  \<open>sendWeatherUpdateForSubscription\<close> with \<open>k = 1\<close>, in the scheduler's loop with
  \<open>k = 2\<close>): fetch, then pick the samples of the current hour and of \<open>k\<close> hours
  later.
\<close>

definition hourlyData :: "env \<Rightarrow> int \<Rightarrow> jsstring \<Rightarrow> error + (hour_sample \<times> hour_sample)" where
  "hourlyData env k l =
     (case fetchWeatherData env l of
        Inl e \<Rightarrow> Inl e
      | Inr NoForecast \<Rightarrow> Inl TypeError
      | Inr (Forecast hs) \<Rightarrow>
          (let currentHour = getHours (now env);
               nextHour = (currentHour + k) mod 24
           in case (hour_at hs currentHour, hour_at hs nextHour) of
                (Some currentData, Some nextData) \<Rightarrow> Inr (currentData, nextData)
              | _ \<Rightarrow> Inl MissingHourlyData))"

subsection \<open>The push dispatcher\<close>

definition permanent :: "push_result \<Rightarrow> bool" where
  "permanent r = (r = PushFailed (Some 410) \<or> r = PushFailed (Some 404))"

text \<open>
  \<open>sendNotification\<close> returns \<^verbatim>\<open>true\<close> or \<^verbatim>\<open>false\<close>; the \<^verbatim>\<open>deleteOne\<close>
  in its \<^verbatim>\<open>catch\<close> block is awaited outside any \<^verbatim>\<open>try\<close>, so its rejection
  leaves the function as an exception.
\<close>

definition sendNotification :: "env \<Rightarrow> jsstring \<Rightarrow> payload \<Rightarrow> state \<Rightarrow> (error + bool) \<times> state" where
  "sendNotification env e p st =
     (let st1 = st\<lparr>sent := sent st @ [(e, p)]\<rparr>
      in case webpush env e p of
           Delivered \<Rightarrow> (Inr True, st1)
         | PushFailed code \<Rightarrow>
             if code = Some 410 \<or> code = Some 404
             then (case deleteOne env e st1 of
                     (Inl err, st2) \<Rightarrow> (Inl err, st2)
                   | (Inr n, st2) \<Rightarrow> (Inr False, st2))
             else (Inr False, st1))"

text \<open>
  One element of the \<^verbatim>\<open>map\<close> in \<open>sendBatchNotifications\<close>: the push with its
  \<^verbatim>\<open>catch\<close> handler, which deletes on 410 and 404 and throws the error again (or the
  error of the deletion, if that is rejected).
\<close>

definition deliver :: "env \<Rightarrow> stored_doc \<Rightarrow> payload \<Rightarrow> state \<Rightarrow> outcome \<times> state" where
  "deliver env sub p st =
     (let st1 = st\<lparr>sent := sent st @ [(endpoint sub, p)]\<rparr>
      in case webpush env (endpoint sub) p of
           Delivered \<Rightarrow> (Fulfilled, st1)
         | PushFailed code \<Rightarrow>
             if code = Some 410 \<or> code = Some 404
             then (case deleteOne env (endpoint sub) st1 of
                     (Inl err, st2) \<Rightarrow> (Rejected err, st2)
                   | (Inr n, st2) \<Rightarrow> (Rejected (PushError code), st2))
             else (Rejected (PushError code), st1))"

text \<open>
  \<^verbatim>\<open>Promise.allSettled\<close> over the subscribers. The pushes are handed to the
  transport in the order of the list; the deletions are keyed by endpoint, and the model
  runs them in the same order.
\<close>

fun deliver_all :: "env \<Rightarrow> stored_doc list \<Rightarrow> payload \<Rightarrow> state \<Rightarrow> outcome list \<times> state" where
  "deliver_all env [] p st = ([], st)"
| "deliver_all env (sub # subs) p st =
     (case deliver env sub p st of
        (r, st1) \<Rightarrow> (case deliver_all env subs p st1 of (rs, st2) \<Rightarrow> (r # rs, st2)))"

text \<open>The result is \<^verbatim>\<open>undefined\<close> (\<open>None\<close>) for an empty list of subscribers.\<close>

definition sendBatchNotifications :: "env \<Rightarrow> stored_doc list \<Rightarrow> payload \<Rightarrow> state \<Rightarrow> outcome list option \<times> state" where
  "sendBatchNotifications env subscribers p st =
     (if subscribers = [] then (None, st)
      else (case deliver_all env subscribers p st of (results, st1) \<Rightarrow> (Some results, st1)))"

definition sendLocationNotifications :: "env \<Rightarrow> jsstring \<Rightarrow> hour_sample \<Rightarrow> hour_sample \<Rightarrow> state \<Rightarrow> (error + unit) \<times> state" where
  "sendLocationNotifications env l currentHourData nextHourData st =
     (case find_location env l st of
        (Inl err, st1) \<Rightarrow> (Inl err, st1)
      | (Inr locationSubscribers, st1) \<Rightarrow>
          if locationSubscribers = [] then (Inr (), st1)
          else
            (let st2 = snd (sendBatchNotifications env locationSubscribers
                              (CurrentNotification l currentHourData) st1);
                 st3 = snd (sendBatchNotifications env locationSubscribers
                              (ForecastNotification l nextHourData) st2)
             in updateMany env l st3))"

text \<open>The two \<^verbatim>\<open>try\<close> blocks as a whole.\<close>

definition updateLocation :: "env \<Rightarrow> int \<Rightarrow> jsstring \<Rightarrow> state \<Rightarrow> (error + unit) \<times> state" where
  "updateLocation env k l st =
     (case hourlyData env k l of
        Inl err \<Rightarrow> (Inl err, st)
      | Inr (currentData, nextData) \<Rightarrow> sendLocationNotifications env l currentData nextData st)"

definition subscribeFailure :: "jsstring \<Rightarrow> payload" where
  "subscribeFailure l =
     FailureNotification (js ''Weather Update Failed'')
       (js ''Couldn't get latest weather for '' @ firstPart l) (js ''/icons/error.png'')"

definition cycleFailure :: "jsstring \<Rightarrow> payload" where
  "cycleFailure l =
     FailureNotification (js ''Weather Update Failed'')
       (js ''We couldn't get the latest weather for '' @ firstPart l) (js ''/icons/error.png'')"

definition sendWeatherUpdateForSubscription :: "env \<Rightarrow> jsstring \<Rightarrow> jsstring \<Rightarrow> state \<Rightarrow> (error + unit) \<times> state" where
  "sendWeatherUpdateForSubscription env e l st =
     (case updateLocation env 1 l st of
        (Inr u, st1) \<Rightarrow> (Inr (), st1)
      | (Inl err, st1) \<Rightarrow>
          (case sendNotification env e (subscribeFailure l) st1 of
             (Inl err2, st2) \<Rightarrow> (Inl err2, st2)
           | (Inr b, st2) \<Rightarrow> (Inr (), st2)))"

subsection \<open>The request handlers\<close>

text \<open>
  \<^verbatim>\<open>POST /api/subscribe\<close> up to and including the upsert: the check of the format
  (an absent or empty endpoint is falsy), the normalization (\<^verbatim>\<open>location.replace\<close>
  exists on a string only; on any other value the call throws, and the handler's
  \<^verbatim>\<open>catch\<close> answers 500), the document and the \<^verbatim>\<open>updateOne\<close>. The result is
  the early response, or the endpoint and the normalized location for the rest of the
  handler.
\<close>

definition subDoc :: "date \<Rightarrow> jsstring \<Rightarrow> push_keys \<Rightarrow> jsstring \<Rightarrow> subscription_doc" where
  "subDoc t e k normalizedLocation =
     \<lparr>endpoint = e, keys = k, createdAt = t, lastNotified = None,
       location = normalizedLocation,
       nextNotificationTime = calculateNextNotificationTime t\<rparr>"

definition invalidFormat :: response where
  "invalidFormat = \<lparr>status = 400, reply = ErrorMessage ''Invalid subscription format''\<rparr>"

definition internalError :: response where
  "internalError = \<lparr>status = 500, reply = ErrorMessage ''Internal server error''\<rparr>"

definition created :: response where
  "created = \<lparr>status = 201, reply = Success\<rparr>"

definition subscribe_upsert :: "env \<Rightarrow> subscribe_body \<Rightarrow> state \<Rightarrow> (response + jsstring \<times> jsstring) \<times> state" where
  "subscribe_upsert env body st =
     (case subscription_field body of
        None \<Rightarrow> (Inl invalidFormat, st)
      | Some subscription \<Rightarrow>
          (case (endpoint_field subscription, keys_field subscription) of
             (Some e, Some k) \<Rightarrow>
               if e = [] then (Inl invalidFormat, st)
               else
                 (case location_field body of
                    JString l \<Rightarrow>
                      (let normalizedLocation = normalizeLocation l
                       in case updateOne env e (subDoc (now env) e k normalizedLocation) st of
                            (Inl err, st1) \<Rightarrow> (Inl internalError, st1)
                          | (Inr u, st1) \<Rightarrow> (Inr (e, normalizedLocation), st1))
                  | _ \<Rightarrow> (Inl internalError, st))
           | _ \<Rightarrow> (Inl invalidFormat, st)))"

definition post_subscribe :: "env \<Rightarrow> subscribe_body \<Rightarrow> state \<Rightarrow> response \<times> state" where
  "post_subscribe env body st =
     (case subscribe_upsert env body st of
        (Inl r, st1) \<Rightarrow> (r, st1)
      | (Inr (e, normalizedLocation), st1) \<Rightarrow>
          (case sendWeatherUpdateForSubscription env e normalizedLocation st1 of
             (Inl err, st2) \<Rightarrow> (internalError, st2)
           | (Inr u, st2) \<Rightarrow> (created, st2)))"

text \<open>
  \<^verbatim>\<open>DELETE /api/subscribe\<close> and \<^verbatim>\<open>POST /api/subscribe/check\<close>. The body's
  endpoint may be absent; no stored document has an absent endpoint, so the query then
  matches nothing.
\<close>

definition delete_subscribe :: "env \<Rightarrow> jsstring option \<Rightarrow> state \<Rightarrow> response \<times> state" where
  "delete_subscribe env e st =
     (case e of
        None \<Rightarrow>
          (if store_down env (calls st)
           then (\<lparr>status = 500, reply = ErrorOf StoreError\<rparr>, st\<lparr>calls := calls st + 1\<rparr>)
           else (\<lparr>status = 404, reply = ErrorMessage ''Subscription not found''\<rparr>,
                 st\<lparr>calls := calls st + 1\<rparr>))
      | Some e' \<Rightarrow>
          (case deleteOne env e' st of
             (Inl err, st1) \<Rightarrow> (\<lparr>status = 500, reply = ErrorOf err\<rparr>, st1)
           | (Inr deletedCount, st1) \<Rightarrow>
               if deletedCount > 0 then (\<lparr>status = 200, reply = Success\<rparr>, st1)
               else (\<lparr>status = 404, reply = ErrorMessage ''Subscription not found''\<rparr>, st1)))"

definition subscribe_check :: "env \<Rightarrow> jsstring option \<Rightarrow> state \<Rightarrow> response \<times> state" where
  "subscribe_check env e st =
     (case e of
        None \<Rightarrow>
          (if store_down env (calls st)
           then (\<lparr>status = 500, reply = NoBody\<rparr>, st\<lparr>calls := calls st + 1\<rparr>)
           else (\<lparr>status = 404, reply = NoBody\<rparr>, st\<lparr>calls := calls st + 1\<rparr>))
      | Some e' \<Rightarrow>
          (case findOne env e' st of
             (Inl err, st1) \<Rightarrow> (\<lparr>status = 500, reply = NoBody\<rparr>, st1)
           | (Inr (Some d), st1) \<Rightarrow> (\<lparr>status = 200, reply = Subscribed (location d)\<rparr>, st1)
           | (Inr None, st1) \<Rightarrow> (\<lparr>status = 404, reply = NoBody\<rparr>, st1)))"

subsection \<open>The scheduler's cycle\<close>

definition getAllSubscriptions :: "env \<Rightarrow> state \<Rightarrow> stored_doc list \<times> state" where
  "getAllSubscriptions env st =
     (case find_all env st of
        (Inl err, st1) \<Rightarrow> ([], st1)
      | (Inr ds, st1) \<Rightarrow> (ds, st1))"

text \<open>
  The \<^verbatim>\<open>Map\<close> from location to subscribers, as the list of its entries in insertion
  order, which is the order of the \<^verbatim>\<open>for ... of\<close> loop.
\<close>

fun addSubscriber :: "stored_doc \<Rightarrow> (jsstring \<times> stored_doc list) list \<Rightarrow> (jsstring \<times> stored_doc list) list" where
  "addSubscriber sub [] = [(location sub, [sub])]"
| "addSubscriber sub ((l, subs) # m) =
     (if l = location sub then (l, subs @ [sub]) # m else (l, subs) # addSubscriber sub m)"

definition locationsMap :: "stored_doc list \<Rightarrow> (jsstring \<times> stored_doc list) list" where
  "locationsMap allSubs = foldl (\<lambda>m sub. addSubscriber sub m) [] allSubs"

text \<open>
  One pass of the loop body: the \<^verbatim>\<open>try\<close> block, and in the \<^verbatim>\<open>catch\<close> the
  failure notification to the subscribers of the group.
\<close>

definition processLocation :: "env \<Rightarrow> jsstring \<Rightarrow> stored_doc list \<Rightarrow> state \<Rightarrow> state" where
  "processLocation env l subscribers st =
     (case updateLocation env 2 l st of
        (Inr u, st1) \<Rightarrow> st1
      | (Inl err, st1) \<Rightarrow> snd (sendBatchNotifications env subscribers (cycleFailure l) st1))"

fun processLocations :: "env \<Rightarrow> (jsstring \<times> stored_doc list) list \<Rightarrow> state \<Rightarrow> state" where
  "processLocations env [] st = st"
| "processLocations env ((l, subscribers) # m) st =
     processLocations env m (processLocation env l subscribers st)"

definition sendTwoHourWeatherUpdates :: "env \<Rightarrow> state \<Rightarrow> state" where
  "sendTwoHourWeatherUpdates env st =
     (case getAllSubscriptions env st of
        (allSubs, st1) \<Rightarrow>
          if allSubs = [] then st1 else processLocations env (locationsMap allSubs) st1)"

section \<open>Notions for the statements, and examples\<close>

text \<open>A string in which no comma has white space next to it.\<close>

fun clean :: "jsstring \<Rightarrow> bool" where
  "clean [] = True"
| "clean [c] = True"
| "clean (a # b # cs) =
     (\<not> (is_space a \<and> b = comma) \<and> \<not> (a = comma \<and> is_space b) \<and> clean (b # cs))"


text \<open>The endpoint and the location of a document.\<close>

definition el :: "stored_doc \<Rightarrow> jsstring \<times> jsstring" where
  "el d = (endpoint d, location d)"

text \<open>
  The state of \<open>sendLocationNotifications\<close> after its two batches, before the
  \<^verbatim>\<open>updateMany\<close>.
\<close>

definition after_batches :: "env \<Rightarrow> jsstring \<Rightarrow> hour_sample \<Rightarrow> hour_sample \<Rightarrow> state \<Rightarrow> state" where
  "after_batches env l c n st =
     snd (deliver_all env (filter (\<lambda>d. location d = l) (docs st)) (ForecastNotification l n)
       (snd (deliver_all env (filter (\<lambda>d. location d = l) (docs st)) (CurrentNotification l c)
          (st\<lparr>calls := calls st + 1\<rparr>))))"

text \<open>
  A list of groups is the grouping of the documents \<open>ds\<close>: one entry for each location
  that occurs, holding the documents of that location in their order.
\<close>

definition groups_of :: "(jsstring \<times> stored_doc list) list \<Rightarrow> stored_doc list \<Rightarrow> bool" where
  "groups_of m ds =
     (distinct (map fst m) \<and> fst ` set m = location ` set ds
      \<and> (\<forall>g \<in> set m. snd g = filter (\<lambda>d. location d = fst g) ds))"


text \<open>
  Examples: three subscribers, \<open>a\<close> and \<open>c\<close> at the one-part location \<open>L\<close> and
  \<open>b\<close> at \<open>P,Q,R\<close>. The weather route answers for the city \<open>P\<close> only; the
  transport reports 410 for \<open>a\<close>, 500 for \<open>c\<close> and delivers to everyone else; the
  collection is available. \<open>env_two\<close> delivers to \<open>c\<close> as well, and
  \<open>env_rejecting\<close> is \<open>env_two\<close> with a collection that rejects every call. In \<open>env_down\<close>
  the transport reports 410 for every endpoint and the collection rejects its second
  call.
\<close>

definition keys_ex :: push_keys where
  "keys_ex = \<lparr>p256dh = js ''p'', auth = js ''q''\<rparr>"

definition doc_ex :: "nat \<Rightarrow> string \<Rightarrow> string \<Rightarrow> stored_doc" where
  "doc_ex i e l =
     \<lparr>endpoint = js e, keys = keys_ex, createdAt = 0, lastNotified = None, location = js l,
       nextNotificationTime = 0, doc_id = i\<rparr>"

definition sample_ex :: hour_sample where
  "sample_ex =
     \<lparr>time = js ''2025-01-01 13:00'', temp_c = 20, condition_text = js ''Clear'',
       condition_icon = js ''i'', cloud = 0, chance_of_rain = 0, wind_kph = 5,
       wind_dir = js ''N'', uv = 3\<rparr>"

definition env_ex :: env where
  "env_ex =
     \<lparr>now = clock 0 13 45,
       weather_api = (\<lambda>name region country.
          if name = js ''P'' then Some (Forecast (replicate 24 (Some sample_ex))) else None),
       webpush = (\<lambda>e p.
          if e = js ''a'' then PushFailed (Some 410)
          else if e = js ''c'' then PushFailed (Some 500)
          else Delivered),
       store_down = (\<lambda>n. False),
       new_id = 7\<rparr>"

definition state_ex :: state where
  "state_ex = \<lparr>docs = [doc_ex 1 ''a'' ''L'', doc_ex 2 ''b'' ''P,Q,R'', doc_ex 3 ''c'' ''L''],
     sent = [], calls = 0\<rparr>"

definition env_two :: env where
  "env_two = env_ex\<lparr>webpush := (\<lambda>e p. if e = js ''a'' then PushFailed (Some 410) else Delivered)\<rparr>"

definition env_rejecting :: env where
  "env_rejecting = env_two\<lparr>store_down := (\<lambda>n. True)\<rparr>"

definition body_ex :: "string \<Rightarrow> json \<Rightarrow> subscribe_body" where
  "body_ex e l =
     \<lparr>subscription_field = Some \<lparr>endpoint_field = Some (js e), keys_field = Some keys_ex\<rparr>,
       location_field = l\<rparr>"

definition old_ex :: stored_doc where
  "old_ex = (doc_ex 2 ''b'' ''P,Q,R'')\<lparr>createdAt := clock 0 9 0, lastNotified := Some (clock 0 12 0),
     nextNotificationTime := clock 0 14 0\<rparr>"

definition state_old :: state where
  "state_old = \<lparr>docs = [doc_ex 1 ''a'' ''L'', old_ex], sent = [], calls = 0\<rparr>"

definition env_down :: env where
  "env_down = env_ex\<lparr>webpush := (\<lambda>e p. PushFailed (Some 410)), store_down := (\<lambda>n. n = 1)\<rparr>"

definition state_empty :: state where
  "state_empty = \<lparr>docs = [], sent = [], calls = 0\<rparr>"

section \<open>The time of the next notification\<close>

lemma calculateNextNotificationTime_eq:
  "calculateNextNotificationTime t =
     (t div msPerDay) * msPerDay + (getHours t + 2) * msPerHour"
  by (simp add: calculateNextNotificationTime_def setHours_def)

text \<open>The hour of the result is two hours on, so it has the parity of the current hour.\<close>

lemma getHours_calculateNextNotificationTime:
  "getHours (calculateNextNotificationTime t) = (getHours t + 2) mod 24"
proof -
  have "calculateNextNotificationTime t =
      ((t div msPerDay) * 24 + (getHours t + 2)) * msPerHour"
    by (simp add: calculateNextNotificationTime_eq msPerDay_def msPerHour_def algebra_simps)
  then have "calculateNextNotificationTime t div msPerHour = (t div msPerDay) * 24 + (getHours t + 2)"
    by (simp add: msPerHour_def)
  then show ?thesis
    by (simp add: getHours_def [of "calculateNextNotificationTime t"] mod_simps)
qed

lemma calculateNextNotificationTime_odd:
  "getHours t mod 2 = 1 \<Longrightarrow> getHours (calculateNextNotificationTime t) mod 2 = 1"
  unfolding getHours_calculateNextNotificationTime
  by presburger

text \<open>
  Claim C1. The claim is that \<open>calculateNextNotificationTime\<close> returns the earliest
  even-hour boundary strictly after \<open>now\<close>, 14:00 for 13:45. The code adds two hours
  to the current hour whatever its parity: at 13:45 it returns 15:00 of the same day,
  which is not 14:00 and not an even hour.
\<close>

theorem calculateNextNotificationTime_at_1345:
  "calculateNextNotificationTime (clock 0 13 45) = clock 0 15 0
   \<and> calculateNextNotificationTime (clock 0 13 45) \<noteq> clock 0 14 0
   \<and> getHours (calculateNextNotificationTime (clock 0 13 45)) mod 2 = 1"
  by (simp add: calculateNextNotificationTime_eq clock_def getHours_def msPerDay_def
      msPerHour_def)

section \<open>Normalization of the location\<close>

declare normalizeLocation.simps(2) [simp del]

lemma not_space_comma: "\<not> is_space comma"
  by (simp add: is_space_def comma_def)

lemma normalizeLocation_match:
  assumes "dropWhile is_space xs = comma # ys"
  shows "normalizeLocation xs = comma # normalizeLocation (dropWhile is_space ys)"
proof (cases xs)
  case Nil
  with assms show ?thesis by simp
next
  case (Cons c cs)
  with assms have "dropWhile is_space (c # cs) = comma # ys" by simp
  then show ?thesis
    unfolding Cons by (subst normalizeLocation.simps(2)) (simp del: dropWhile.simps)
qed

lemma normalizeLocation_no_match:
  assumes "\<forall>ys. dropWhile is_space (c # cs) \<noteq> comma # ys"
  shows "normalizeLocation (c # cs) = c # normalizeLocation cs"
  using assms
  by (subst normalizeLocation.simps(2)) (simp del: dropWhile.simps split: list.splits)

lemma normalizeLocation_head_comma:
  assumes "normalizeLocation xs = comma # r"
  shows "\<exists>ys. dropWhile is_space xs = comma # ys"
proof (cases xs)
  case Nil
  with assms show ?thesis by simp
next
  case (Cons c cs)
  show ?thesis
  proof (rule ccontr)
    assume no: "\<nexists>ys. dropWhile is_space xs = comma # ys"
    then have "normalizeLocation (c # cs) = c # normalizeLocation cs"
      using Cons normalizeLocation_no_match by blast
    with assms Cons have "c = comma" by simp
    then have "dropWhile is_space xs = comma # cs"
      using Cons not_space_comma by simp
    with no show False by blast
  qed
qed

lemma normalizeLocation_head_other:
  "\<not> is_space z \<Longrightarrow> \<exists>r. normalizeLocation (z # zs) = z # r"
  by (subst normalizeLocation.simps(2)) simp

lemma clean_space_run:
  "clean (c # cs) \<Longrightarrow> is_space c \<Longrightarrow> dropWhile is_space cs \<noteq> comma # ys"
proof (induction cs arbitrary: c)
  case Nil
  then show ?case by simp
next
  case (Cons b bs)
  then show ?case by (cases "is_space b") auto
qed

lemma clean_tl: "clean (c # cs) \<Longrightarrow> clean cs"
  by (cases cs) simp_all

text \<open>A string with no white space next to a comma is left as it is.\<close>

lemma normalizeLocation_clean_id: "clean xs \<Longrightarrow> normalizeLocation xs = xs"
proof (induction xs)
  case Nil
  then show ?case by simp
next
  case (Cons c cs)
  have ih: "normalizeLocation cs = cs"
    using Cons clean_tl by blast
  show ?case
  proof (cases "c = comma")
    case True
    have "dropWhile is_space cs = cs"
      using Cons.prems True by (cases cs) simp_all
    moreover have "dropWhile is_space (c # cs) = comma # cs"
      using True not_space_comma by simp
    ultimately show ?thesis
      using normalizeLocation_match [of "c # cs" cs] ih True by simp
  next
    case False
    have "\<forall>ys. dropWhile is_space (c # cs) \<noteq> comma # ys"
    proof (cases "is_space c")
      case True
      then show ?thesis using clean_space_run [OF Cons.prems] by simp
    next
      case sp: False
      then show ?thesis using False by simp
    qed
    then show ?thesis using normalizeLocation_no_match ih by simp
  qed
qed

text \<open>The result of the replacement has no white space next to a comma.\<close>

lemma clean_normalizeLocation: "clean (normalizeLocation xs)"
proof (induction xs rule: normalizeLocation.induct)
  case 1
  show ?case by simp
next
  case (2 c cs)
  show ?case
  proof (cases "\<exists>ys. dropWhile is_space (c # cs) = comma # ys")
    case True
    then obtain ys where m: "dropWhile is_space (c # cs) = comma # ys" by blast
    have eq: "normalizeLocation (c # cs) = comma # normalizeLocation (dropWhile is_space ys)"
      using normalizeLocation_match [OF m] .
    have ih: "clean (normalizeLocation (dropWhile is_space ys))"
      using 2(2) [OF m] by simp
    show ?thesis
    proof (cases "dropWhile is_space ys")
      case Nil
      have "normalizeLocation (dropWhile is_space ys) = []"
        by (simp only: Nil normalizeLocation.simps(1))
      then show ?thesis by (simp add: eq)
    next
      case (Cons z zs)
      then have nz: "\<not> is_space z"
        using hd_dropWhile [of is_space ys] by (metis list.sel(1) list.distinct(1))
      then obtain r where r: "normalizeLocation (z # zs) = z # r"
        using normalizeLocation_head_other by blast
      then show ?thesis using ih nz not_space_comma by (simp add: eq Cons)
    qed
  next
    case False
    then have no: "\<forall>ys. dropWhile is_space (c # cs) \<noteq> comma # ys" by blast
    have eq: "normalizeLocation (c # cs) = c # normalizeLocation cs"
      using normalizeLocation_no_match [OF no] .
    have ih: "clean (normalizeLocation cs)"
    proof (cases "dropWhile is_space (c # cs)")
      case Nil
      then show ?thesis using 2(1) by simp
    next
      case (Cons x ys)
      then have "x \<noteq> comma" using no by simp
      then show ?thesis using 2(3) [OF Cons] by simp
    qed
    have cne: "c \<noteq> comma"
      using no not_space_comma by auto
    show ?thesis
    proof (cases "normalizeLocation cs")
      case Nil
      then show ?thesis using eq by simp
    next
      case (Cons b r)
      have "\<not> (is_space c \<and> b = comma)"
      proof
        assume a: "is_space c \<and> b = comma"
        then obtain ys where "dropWhile is_space cs = comma # ys"
          using normalizeLocation_head_comma Cons by blast
        then have "dropWhile is_space (c # cs) = comma # ys" using a by simp
        with no show False by blast
      qed
      then show ?thesis using eq ih Cons cne by simp
    qed
  qed
qed

lemma normalizeLocation_examples:
  "normalizeLocation (js ''A , B , C'') = js ''A,B,C''"
  "normalizeLocation (js ''A,B,C'') = js ''A,B,C''"
  by (simp_all add: js_def is_space_def comma_def normalizeLocation.simps(2))

text \<open>
  Claim C2. The normalization applied on subscribe is idempotent, for every string, and
  it maps \<open>A , B , C\<close> and \<open>A,B,C\<close> to the same key, which is \<open>A,B,C\<close>.
\<close>

theorem normalizeLocation_idempotent:
  "normalizeLocation (normalizeLocation x) = normalizeLocation x
   \<and> normalizeLocation (js ''A , B , C'') = normalizeLocation (js ''A,B,C'')
   \<and> normalizeLocation (js ''A , B , C'') = js ''A,B,C''"
  using normalizeLocation_clean_id [OF clean_normalizeLocation]
  by (simp add: normalizeLocation_examples)

theorem normalizeLocation_idempotent_witness:
  "normalizeLocation (normalizeLocation (js '' Paris ,  Ile-de-France ,France'')) =
     js '' Paris,Ile-de-France,France''"
  using normalizeLocation_idempotent [of "js '' Paris ,  Ile-de-France ,France''"]
  by (simp add: js_def is_space_def comma_def normalizeLocation.simps(2))

subsection \<open>The documents under the three writes\<close>

lemma set_delete_docs: "set (delete_docs e ds) \<subseteq> set ds"
  by (induction ds) auto

lemma endpoints_delete_docs: "map endpoint (delete_docs e ds) = remove1 e (map endpoint ds)"
  by (induction ds) auto

lemma distinct_delete_docs:
  "distinct (map endpoint ds) \<Longrightarrow> distinct (map endpoint (delete_docs e ds))"
  by (simp add: endpoints_delete_docs)

lemma delete_docs_filter:
  "distinct (map endpoint ds) \<Longrightarrow> delete_docs e ds = filter (\<lambda>d. endpoint d \<noteq> e) ds"
proof (induction ds)
  case Nil
  show ?case by simp
next
  case (Cons d ds)
  show ?case
  proof (cases "endpoint d = e")
    case True
    then have "e \<notin> endpoint ` set ds"
      using Cons.prems by simp
    then have "\<forall>x \<in> set ds. endpoint x \<noteq> e"
      by blast
    then have "filter (\<lambda>d. endpoint d \<noteq> e) ds = ds"
      by (simp add: filter_id_conv)
    then show ?thesis using True by simp
  next
    case False
    then show ?thesis using Cons by simp
  qed
qed

lemma filter_delete_docs:
  "\<forall>d \<in> set ds. endpoint d = e \<longrightarrow> \<not> Q d \<Longrightarrow> filter Q (delete_docs e ds) = filter Q ds"
  by (induction ds) auto

lemma endpoint_set_fields [simp]: "endpoint (set_fields s d) = endpoint s"
  by (simp add: set_fields_def)

lemma endpoint_insert_doc [simp]: "endpoint (insert_doc s i) = endpoint s"
  by (simp add: insert_doc_def)

lemma endpoints_upsert_docs:
  "endpoint s = e \<Longrightarrow>
   map endpoint (upsert_docs e s i ds) =
     (if e \<in> set (map endpoint ds) then map endpoint ds else map endpoint ds @ [e])"
  by (induction ds) auto

lemma distinct_upsert_docs:
  "endpoint s = e \<Longrightarrow> distinct (map endpoint ds) \<Longrightarrow>
   distinct (map endpoint (upsert_docs e s i ds))"
  by (simp add: endpoints_upsert_docs)

lemma upsert_docs_existing:
  "findOne_docs e ds = Some old \<Longrightarrow>
   \<exists>i < length ds. ds ! i = old \<and> endpoint old = e \<and> (\<forall>j < i. endpoint (ds ! j) \<noteq> e)
     \<and> upsert_docs e s n ds = ds[i := set_fields s old]"
proof (induction ds)
  case Nil
  then show ?case by simp
next
  case (Cons d ds)
  show ?case
  proof (cases "endpoint d = e")
    case True
    then have "d = old" using Cons.prems by simp
    then have "0 < length (d # ds) \<and> (d # ds) ! 0 = old \<and> endpoint old = e
        \<and> (\<forall>j < 0. endpoint ((d # ds) ! j) \<noteq> e)
        \<and> upsert_docs e s n (d # ds) = (d # ds)[0 := set_fields s old]"
      using True by simp
    then show ?thesis by blast
  next
    case False
    then have "findOne_docs e ds = Some old" using Cons.prems by simp
    then obtain i where i: "i < length ds" "ds ! i = old" "endpoint old = e"
        "\<forall>j < i. endpoint (ds ! j) \<noteq> e" "upsert_docs e s n ds = ds[i := set_fields s old]"
      using Cons.IH by blast
    have "\<forall>j < Suc i. endpoint ((d # ds) ! j) \<noteq> e"
      using False i(4) by (simp add: nth_Cons split: nat.splits)
    then have "Suc i < length (d # ds) \<and> (d # ds) ! Suc i = old \<and> endpoint old = e
        \<and> (\<forall>j < Suc i. endpoint ((d # ds) ! j) \<noteq> e)
        \<and> upsert_docs e s n (d # ds) = (d # ds)[Suc i := set_fields s old]"
      using False i by simp
    then show ?thesis by blast
  qed
qed

lemma findOne_docs_upsert:
  "endpoint s = e \<Longrightarrow> findOne_docs e ds = Some old \<Longrightarrow>
   findOne_docs e (upsert_docs e s n ds) = Some (set_fields s old)"
  by (induction ds) (auto split: if_splits)

lemma findOne_docs_Some: "findOne_docs e ds = Some d \<Longrightarrow> d \<in> set ds \<and> endpoint d = e"
  by (induction ds) (auto split: if_splits)

lemma findOne_docs_None: "findOne_docs e ds = None \<longleftrightarrow> e \<notin> endpoint ` set ds"
  by (induction ds) auto

lemma endpoint_notified [simp]: "endpoint (notified t l d) = endpoint d"
  by (simp add: notified_def)

lemma location_notified [simp]: "location (notified t l d) = location d"
  by (simp add: notified_def)



subsection \<open>The dispatcher\<close>

lemma sent_deleteOne [simp]: "sent (snd (deleteOne env e st)) = sent st"
  by (simp add: deleteOne_def)

lemma docs_deleteOne:
  "docs (snd (deleteOne env e st)) =
     (if store_down env (calls st) then docs st else delete_docs e (docs st))"
  by (simp add: deleteOne_def)

lemma sent_deliver: "sent (snd (deliver env sub p st)) = sent st @ [(endpoint sub, p)]"
  by (simp add: deliver_def deleteOne_def Let_def split: push_result.splits prod.splits sum.splits)

lemma docs_deliver_cases:
  "docs (snd (deliver env sub p st)) = docs st
   \<or> docs (snd (deliver env sub p st)) = delete_docs (endpoint sub) (docs st)"
  by (simp add: deliver_def deleteOne_def Let_def split: push_result.splits prod.splits sum.splits)

lemma fulfilled_deliver:
  "(fst (deliver env sub p st) = Fulfilled) = (webpush env (endpoint sub) p = Delivered)"
  by (simp add: deliver_def deleteOne_def Let_def split: push_result.splits prod.splits sum.splits)

lemma deliver_all_Cons:
  "deliver_all env (sub # subs) p st =
     (fst (deliver env sub p st) # fst (deliver_all env subs p (snd (deliver env sub p st))),
      snd (deliver_all env subs p (snd (deliver env sub p st))))"
  by (simp split: prod.splits)

lemma sent_deliver_all:
  "sent (snd (deliver_all env subs p st)) = sent st @ map (\<lambda>s. (endpoint s, p)) subs"
  by (induction subs arbitrary: st) (simp_all add: deliver_all_Cons sent_deliver del: deliver_all.simps(2))

lemma length_deliver_all: "length (fst (deliver_all env subs p st)) = length subs"
  by (induction subs arbitrary: st) (simp_all add: deliver_all_Cons del: deliver_all.simps(2))

lemma fulfilled_deliver_all:
  "map (\<lambda>r. r = Fulfilled) (fst (deliver_all env subs p st)) =
     map (\<lambda>s. webpush env (endpoint s) p = Delivered) subs"
  by (induction subs arbitrary: st)
    (simp_all add: deliver_all_Cons fulfilled_deliver del: deliver_all.simps(2))

lemma set_docs_deliver: "set (docs (snd (deliver env sub p st))) \<subseteq> set (docs st)"
  using docs_deliver_cases [of env sub p st] set_delete_docs [of "endpoint sub" "docs st"]
  by auto


lemma distinct_deliver:
  "distinct (map endpoint (docs st)) \<Longrightarrow> distinct (map endpoint (docs (snd (deliver env sub p st))))"
  using docs_deliver_cases [of env sub p st] distinct_delete_docs [of "docs st" "endpoint sub"]
  by auto

lemma distinct_deliver_all:
  "distinct (map endpoint (docs st)) \<Longrightarrow>
   distinct (map endpoint (docs (snd (deliver_all env subs p st))))"
  by (induction subs arbitrary: st)
    (simp_all add: deliver_all_Cons distinct_deliver del: deliver_all.simps(2))



lemma snd_sendBatchNotifications:
  "snd (sendBatchNotifications env subs p st) = snd (deliver_all env subs p st)"
  by (simp add: sendBatchNotifications_def split: prod.splits)

lemma fst_sendBatchNotifications:
  "fst (sendBatchNotifications env subs p st) =
     (if subs = [] then None else Some (fst (deliver_all env subs p st)))"
  by (simp add: sendBatchNotifications_def split: prod.splits)







subsection \<open>One location\<close>



lemma docs_sendLocationNotifications:
  "docs (snd (sendLocationNotifications env l c n st)) =
     (if store_down env (calls st) \<or> filter (\<lambda>d. location d = l) (docs st) = [] then docs st
      else if store_down env (calls (after_batches env l c n st))
      then docs (after_batches env l c n st)
      else map (notified (now env) l) (docs (after_batches env l c n st)))"
  by (simp add: sendLocationNotifications_def find_location_def updateMany_def Let_def
      snd_sendBatchNotifications after_batches_def)


lemma distinct_after_batches:
  assumes "distinct (map endpoint (docs st))"
  shows "distinct (map endpoint (docs (after_batches env l c n st)))"
proof -
  have "distinct (map endpoint (docs (st\<lparr>calls := calls st + 1\<rparr>)))"
    using assms by simp
  then show ?thesis
    unfolding after_batches_def by (intro distinct_deliver_all)
qed



lemma el_notified [simp]: "el (notified t l d) = el d"
  by (simp add: el_def)


lemma distinct_sendLocationNotifications:
  "distinct (map endpoint (docs st)) \<Longrightarrow>
   distinct (map endpoint (docs (snd (sendLocationNotifications env l c n st))))"
  using distinct_after_batches [of st env l c n]
  by (simp add: docs_sendLocationNotifications comp_def)


subsection \<open>One pass of the scheduler's loop\<close>

lemma updateLocation_cases:
  "(\<exists>err. hourlyData env k l = Inl err \<and> updateLocation env k l st = (Inl err, st))
   \<or> (\<exists>c n. hourlyData env k l = Inr (c, n)
         \<and> updateLocation env k l st = sendLocationNotifications env l c n st)"
  by (cases "hourlyData env k l") (auto simp: updateLocation_def)


lemma distinct_updateLocation:
  "distinct (map endpoint (docs st)) \<Longrightarrow>
   distinct (map endpoint (docs (snd (updateLocation env k l st))))"
  using updateLocation_cases [of env k l st] distinct_sendLocationNotifications [of st env l]
  by auto



text \<open>What the loop body does, by the result of the \<^verbatim>\<open>try\<close> block.\<close>

lemma processLocation_cases:
  "processLocation env l subs st = snd (updateLocation env 2 l st)
   \<or> processLocation env l subs st =
       snd (deliver_all env subs (cycleFailure l) (snd (updateLocation env 2 l st)))"
  by (simp add: processLocation_def snd_sendBatchNotifications split: prod.splits sum.splits)


lemma distinct_processLocation:
  assumes "distinct (map endpoint (docs st))"
  shows "distinct (map endpoint (docs (processLocation env l subs st)))"
proof -
  let ?st1 = "snd (updateLocation env 2 l st)"
  have 1: "distinct (map endpoint (docs ?st1))"
    using assms by (rule distinct_updateLocation)
  then have "distinct (map endpoint (docs (snd (deliver_all env subs (cycleFailure l) ?st1))))"
    by (rule distinct_deliver_all)
  then show ?thesis
    using 1 processLocation_cases [of env l subs st] by auto
qed






subsection \<open>The groups\<close>






lemma groups_of_Cons:
  assumes "groups_of ((l, subs) # m) ds"
  shows "subs = filter (\<lambda>d. location d = l) ds" and "l \<notin> fst ` set m"
    and "distinct (map fst m)" and "\<forall>g \<in> set m. snd g = filter (\<lambda>d. location d = fst g) ds"
  using assms by (auto simp: groups_of_def)

subsection \<open>The loop\<close>





lemmas ex_defs = keys_ex_def doc_ex_def sample_ex_def env_ex_def state_ex_def js_def

text \<open>
  A delivery removes nothing but records whose push failed permanently, whatever the
  collection does.
\<close>

lemma docs_deliver_permanent:
  "docs (snd (deliver env sub p st)) = docs st
   \<or> (permanent (webpush env (endpoint sub) p)
       \<and> docs (snd (deliver env sub p st)) = delete_docs (endpoint sub) (docs st))"
  by (auto simp: deliver_def deleteOne_def permanent_def Let_def
      split: push_result.splits prod.splits sum.splits)

lemma kept_deliver:
  assumes "\<forall>d \<in> set (docs st). endpoint sub = endpoint d
      \<and> permanent (webpush env (endpoint sub) p) \<longrightarrow> \<not> Q d"
  shows "filter Q (docs (snd (deliver env sub p st))) = filter Q (docs st)"
proof -
  from docs_deliver_permanent [of env sub p st] show ?thesis
  proof (elim disjE conjE)
    assume "docs (snd (deliver env sub p st)) = docs st"
    then show ?thesis by simp
  next
    assume perm: "permanent (webpush env (endpoint sub) p)"
      and del: "docs (snd (deliver env sub p st)) = delete_docs (endpoint sub) (docs st)"
    have "\<forall>d \<in> set (docs st). endpoint d = endpoint sub \<longrightarrow> \<not> Q d"
      using assms perm by auto
    then show ?thesis
      unfolding del by (rule filter_delete_docs)
  qed
qed

lemma kept_deliver_all:
  assumes "\<forall>d \<in> set (docs st). (\<exists>s \<in> set subs. endpoint s = endpoint d
      \<and> permanent (webpush env (endpoint s) p)) \<longrightarrow> \<not> Q d"
  shows "filter Q (docs (snd (deliver_all env subs p st))) = filter Q (docs st)"
  using assms
proof (induction subs arbitrary: st)
  case Nil
  show ?case by simp
next
  case (Cons sub subs)
  let ?st1 = "snd (deliver env sub p st)"
  have 1: "filter Q (docs ?st1) = filter Q (docs st)"
    using Cons.prems by (intro kept_deliver) auto
  have "\<forall>d \<in> set (docs ?st1). (\<exists>s \<in> set subs. endpoint s = endpoint d
      \<and> permanent (webpush env (endpoint s) p)) \<longrightarrow> \<not> Q d"
    using Cons.prems set_docs_deliver [of env sub p st] by auto
  then have "filter Q (docs (snd (deliver_all env subs p ?st1))) = filter Q (docs ?st1)"
    by (rule Cons.IH)
  then show ?case using 1 by (simp add: deliver_all_Cons del: deliver_all.simps(2))
qed

lemma kept_sendNotification:
  assumes "\<forall>d \<in> set (docs st). endpoint d = e \<and> permanent (webpush env e p) \<longrightarrow> \<not> Q d"
  shows "filter Q (docs (snd (sendNotification env e p st))) = filter Q (docs st)"
proof -
  have c: "docs (snd (sendNotification env e p st)) = docs st
      \<or> (permanent (webpush env e p)
          \<and> docs (snd (sendNotification env e p st)) = delete_docs e (docs st))"
    by (auto simp: sendNotification_def deleteOne_def permanent_def Let_def
        split: push_result.splits prod.splits sum.splits)
  then show ?thesis
  proof (elim disjE conjE)
    assume "docs (snd (sendNotification env e p st)) = docs st"
    then show ?thesis by simp
  next
    assume perm: "permanent (webpush env e p)"
      and del: "docs (snd (sendNotification env e p st)) = delete_docs e (docs st)"
    have "\<forall>d \<in> set (docs st). endpoint d = e \<longrightarrow> \<not> Q d"
      using assms perm by auto
    then show ?thesis
      unfolding del by (rule filter_delete_docs)
  qed
qed

text \<open>
  With the deletions of a delivery carried out: the next calls to the collection, one
  for each subscriber at most, are not rejected.
\<close>

lemma calls_deliver:
  "calls st \<le> calls (snd (deliver env sub p st)) \<and> calls (snd (deliver env sub p st)) \<le> calls st + 1"
  by (simp add: deliver_def deleteOne_def Let_def split: push_result.splits)

lemma docs_deliver_carried:
  "\<not> store_down env (calls st) \<Longrightarrow>
   docs (snd (deliver env sub p st)) =
     (if permanent (webpush env (endpoint sub) p) then delete_docs (endpoint sub) (docs st)
      else docs st)"
  by (auto simp: deliver_def deleteOne_def permanent_def Let_def split: push_result.splits)

lemma docs_deliver_all_carried:
  assumes "\<forall>n. calls st \<le> n \<and> n < calls st + length subs \<longrightarrow> \<not> store_down env n"
    and "distinct (map endpoint (docs st))"
  shows "docs (snd (deliver_all env subs p st)) =
           filter (\<lambda>d. \<not> (\<exists>s \<in> set subs. endpoint s = endpoint d
                              \<and> permanent (webpush env (endpoint s) p))) (docs st)"
  using assms
proof (induction subs arbitrary: st)
  case Nil
  show ?case by simp
next
  case (Cons sub subs)
  let ?st1 = "snd (deliver env sub p st)"
  let ?gone = "\<lambda>S d. \<exists>s \<in> S. endpoint s = endpoint d \<and> permanent (webpush env (endpoint s) p)"
  have now: "\<not> store_down env (calls st)"
    using Cons.prems(1) by simp
  have d1: "docs ?st1 =
      filter (\<lambda>d. \<not> (endpoint sub = endpoint d \<and> permanent (webpush env (endpoint sub) p))) (docs st)"
  proof (cases "permanent (webpush env (endpoint sub) p)")
    case True
    have "docs ?st1 = filter (\<lambda>d. endpoint d \<noteq> endpoint sub) (docs st)"
      using docs_deliver_carried [OF now, of sub p] True
        delete_docs_filter [OF Cons.prems(2), of "endpoint sub"] by simp
    also have "\<dots> = filter (\<lambda>d. \<not> (endpoint sub = endpoint d
        \<and> permanent (webpush env (endpoint sub) p))) (docs st)"
      using True by (intro filter_cong) auto
    finally show ?thesis .
  next
    case False
    then show ?thesis
      using docs_deliver_carried [OF now, of sub p] by simp
  qed
  have later: "\<forall>n. calls ?st1 \<le> n \<and> n < calls ?st1 + length subs \<longrightarrow> \<not> store_down env n"
  proof (intro allI impI)
    fix n
    assume "calls ?st1 \<le> n \<and> n < calls ?st1 + length subs"
    then have "calls st \<le> n \<and> n < calls st + length (sub # subs)"
      using calls_deliver [of st env sub p] by simp
    then show "\<not> store_down env n" using Cons.prems(1) by blast
  qed
  have "distinct (map endpoint (docs ?st1))"
    using Cons.prems(2) by (rule distinct_deliver)
  with later have "docs (snd (deliver_all env subs p ?st1)) = filter (\<lambda>d. \<not> ?gone (set subs) d) (docs ?st1)"
    by (rule Cons.IH)
  then have "docs (snd (deliver_all env (sub # subs) p st)) =
      filter (\<lambda>d. \<not> ?gone (set subs) d)
        (filter (\<lambda>d. \<not> (endpoint sub = endpoint d \<and> permanent (webpush env (endpoint sub) p))) (docs st))"
    using d1 by (simp add: deliver_all_Cons del: deliver_all.simps(2))
  also have "\<dots> = filter (\<lambda>d. \<not> ?gone (set (sub # subs)) d) (docs st)"
    by (auto intro: filter_cong)
  finally show ?case .
qed

lemma docs_sendNotification:
  "docs (snd (sendNotification env e p st)) =
     (if permanent (webpush env e p) \<and> \<not> store_down env (calls st) then delete_docs e (docs st)
      else docs st)"
  by (auto simp: sendNotification_def deleteOne_def permanent_def Let_def split: push_result.splits)

text \<open>
  Claim C4, as stated, fails where the collection rejects the \<^verbatim>\<open>deleteOne\<close>: the
  transport reports 410 for \<open>a\<close>, and the record of \<open>a\<close> is still stored after the
  single delivery (which throws the error of the collection) and after the batch.
\<close>

theorem record_kept_when_delete_rejected:
  "webpush env_rejecting (js ''a'') (cycleFailure (js ''L'')) = PushFailed (Some 410)
   \<and> distinct (map endpoint (docs state_ex))
   \<and> fst (sendNotification env_rejecting (js ''a'') (cycleFailure (js ''L'')) state_ex) = Inl StoreError
   \<and> docs (snd (sendNotification env_rejecting (js ''a'') (cycleFailure (js ''L'')) state_ex)) =
       docs state_ex
   \<and> fst (sendBatchNotifications env_rejecting (docs state_ex) (cycleFailure (js ''L'')) state_ex) =
       Some [Rejected StoreError, Fulfilled, Fulfilled]
   \<and> docs (snd (sendBatchNotifications env_rejecting (docs state_ex) (cycleFailure (js ''L'')) state_ex)) =
       docs state_ex"
proof -
  have w: "webpush env_rejecting e p = (if e = js ''a'' then PushFailed (Some 410) else Delivered)" for e p
    by (simp add: env_rejecting_def env_two_def)
  have d: "store_down env_rejecting n" for n
    by (simp add: env_rejecting_def)
  have e: "endpoint (doc_ex i x l) = js x" for i x l
    by (simp add: doc_ex_def)
  have ne: "js ''b'' \<noteq> js ''a''" "js ''c'' \<noteq> js ''a''"
    by (simp_all add: js_def)
  have dist: "distinct (map endpoint (docs state_ex))" by (simp add: ex_defs)
  have s: "docs state_ex = [doc_ex 1 ''a'' ''L'', doc_ex 2 ''b'' ''P,Q,R'', doc_ex 3 ''c'' ''L'']"
    by (simp add: state_ex_def)
  show ?thesis
    using dist
    by (simp add: w d e ne s sendNotification_def sendBatchNotifications_def deliver_def
        deleteOne_def Let_def)
qed

text \<open>
  Claim C4, amended. Whatever the collection does, a single or a batch delivery removes
  no record but those whose push the transport answered 410 or 404: any other delivery
  error leaves the subscriber's record, and the records of the other subscribers are
  untouched. In a collection with one record for each endpoint, the single delivery
  deletes the record exactly when the transport reports 410 or 404 and the
  \<^verbatim>\<open>deleteOne\<close> is not rejected; and when none of the deletions of a batch is
  rejected, the batch deletes the record of a subscriber exactly when the transport
  reports 410 or 404 for it. The state returned with the outcome has the deletion.
\<close>

theorem pruned_iff_permanent:
  "filter (\<lambda>d. \<not> (endpoint d = e \<and> permanent (webpush env e p)))
       (docs (snd (sendNotification env e p st))) =
     filter (\<lambda>d. \<not> (endpoint d = e \<and> permanent (webpush env e p))) (docs st)
   \<and> filter (\<lambda>d. \<not> (\<exists>s \<in> set subs. endpoint s = endpoint d
                        \<and> permanent (webpush env (endpoint s) p)))
       (docs (snd (sendBatchNotifications env subs p st))) =
     filter (\<lambda>d. \<not> (\<exists>s \<in> set subs. endpoint s = endpoint d
                        \<and> permanent (webpush env (endpoint s) p))) (docs st)
   \<and> (distinct (map endpoint (docs st)) \<longrightarrow>
        docs (snd (sendNotification env e p st)) =
          (if permanent (webpush env e p) \<and> \<not> store_down env (calls st)
           then filter (\<lambda>d. endpoint d \<noteq> e) (docs st)
           else docs st))
   \<and> (distinct (map endpoint (docs st))
        \<and> (\<forall>n. calls st \<le> n \<and> n < calls st + length subs \<longrightarrow> \<not> store_down env n) \<longrightarrow>
        docs (snd (sendBatchNotifications env subs p st)) =
          filter (\<lambda>d. \<not> (\<exists>s \<in> set subs. endpoint s = endpoint d
                             \<and> permanent (webpush env (endpoint s) p))) (docs st)
        \<and> (\<forall>s \<in> set subs. s \<in> set (docs st) \<longrightarrow>
              (s \<notin> set (docs (snd (sendBatchNotifications env subs p st)))
               \<longleftrightarrow> permanent (webpush env (endpoint s) p))))"
proof (intro conjI impI)
  show "filter (\<lambda>d. \<not> (endpoint d = e \<and> permanent (webpush env e p)))
        (docs (snd (sendNotification env e p st))) =
      filter (\<lambda>d. \<not> (endpoint d = e \<and> permanent (webpush env e p))) (docs st)"
    by (rule kept_sendNotification) blast
  show "filter (\<lambda>d. \<not> (\<exists>s \<in> set subs. endpoint s = endpoint d
                         \<and> permanent (webpush env (endpoint s) p)))
        (docs (snd (sendBatchNotifications env subs p st))) =
      filter (\<lambda>d. \<not> (\<exists>s \<in> set subs. endpoint s = endpoint d
                         \<and> permanent (webpush env (endpoint s) p))) (docs st)"
    unfolding snd_sendBatchNotifications by (rule kept_deliver_all) blast
next
  assume dist: "distinct (map endpoint (docs st))"
  show "docs (snd (sendNotification env e p st)) =
      (if permanent (webpush env e p) \<and> \<not> store_down env (calls st)
       then filter (\<lambda>d. endpoint d \<noteq> e) (docs st) else docs st)"
    using docs_sendNotification [of env e p st] delete_docs_filter [OF dist] by simp
next
  assume a: "distinct (map endpoint (docs st))
      \<and> (\<forall>n. calls st \<le> n \<and> n < calls st + length subs \<longrightarrow> \<not> store_down env n)"
  then have up: "\<forall>n. calls st \<le> n \<and> n < calls st + length subs \<longrightarrow> \<not> store_down env n"
    and dist: "distinct (map endpoint (docs st))"
    by simp_all
  show batch: "docs (snd (sendBatchNotifications env subs p st)) =
      filter (\<lambda>d. \<not> (\<exists>s \<in> set subs. endpoint s = endpoint d
                         \<and> permanent (webpush env (endpoint s) p))) (docs st)"
    unfolding snd_sendBatchNotifications using up dist by (rule docs_deliver_all_carried)
  show "\<forall>s \<in> set subs. s \<in> set (docs st) \<longrightarrow>
      (s \<notin> set (docs (snd (sendBatchNotifications env subs p st)))
       \<longleftrightarrow> permanent (webpush env (endpoint s) p))"
    unfolding batch by auto
qed

theorem pruned_iff_permanent_witness:
  "docs (snd (sendBatchNotifications env_ex (docs state_ex) (cycleFailure (js ''L'')) state_ex)) =
     [doc_ex 2 ''b'' ''P,Q,R'', doc_ex 3 ''c'' ''L'']
   \<and> docs (snd (sendNotification env_ex (js ''c'') (cycleFailure (js ''L'')) state_ex)) =
     docs state_ex
   \<and> docs (snd (sendNotification env_ex (js ''a'') (cycleFailure (js ''L'')) state_ex)) =
     [doc_ex 2 ''b'' ''P,Q,R'', doc_ex 3 ''c'' ''L'']"
proof -
  have up: "\<forall>n. \<not> store_down env_ex n" by (simp add: env_ex_def)
  have dist: "distinct (map endpoint (docs state_ex))" by (simp add: ex_defs)
  show ?thesis
    using pruned_iff_permanent [of "js ''c''" env_ex "cycleFailure (js ''L'')" state_ex "docs state_ex"]
      pruned_iff_permanent [of "js ''a''" env_ex "cycleFailure (js ''L'')" state_ex "docs state_ex"]
      up dist
    by (simp add: ex_defs permanent_def)
qed

text \<open>
  Claim C5, as stated, fails in two places. For the empty list the guard at the head of
  \<open>sendBatchNotifications\<close> returns \<^verbatim>\<open>undefined\<close>, not an empty set of outcomes.
  And of three subscribers with one permanent failure and two deliveries, all three
  records remain where the collection rejects the \<^verbatim>\<open>deleteOne\<close>.
\<close>

theorem sendBatchNotifications_empty:
  "sendBatchNotifications env_ex [] (cycleFailure (js ''L'')) state_ex = (None, state_ex)
   \<and> map (\<lambda>s. webpush env_rejecting (endpoint s) (cycleFailure (js ''L''))) (docs state_ex) =
       [PushFailed (Some 410), Delivered, Delivered]
   \<and> map (\<lambda>s. s \<in> set (docs (snd (sendBatchNotifications env_rejecting (docs state_ex)
                 (cycleFailure (js ''L'')) state_ex)))) (docs state_ex) = [True, True, True]"
proof -
  have w: "webpush env_rejecting e p = (if e = js ''a'' then PushFailed (Some 410) else Delivered)" for e p
    by (simp add: env_rejecting_def env_two_def)
  have d: "store_down env_rejecting n" for n
    by (simp add: env_rejecting_def)
  have e: "endpoint (doc_ex i x l) = js x" for i x l
    by (simp add: doc_ex_def)
  have ne: "js ''b'' \<noteq> js ''a''" "js ''c'' \<noteq> js ''a''"
    by (simp_all add: js_def)
  have s: "docs state_ex = [doc_ex 1 ''a'' ''L'', doc_ex 2 ''b'' ''P,Q,R'', doc_ex 3 ''c'' ''L'']"
    by (simp add: state_ex_def)
  show ?thesis
    by (simp add: w d e ne s sendBatchNotifications_def deliver_def deleteOne_def Let_def)
qed

text \<open>
  Claim C5, amended. For the empty list the batch delivery returns \<^verbatim>\<open>undefined\<close>
  and changes nothing. For every non-empty list of subscribers it hands one push for each
  subscriber to the transport, whatever the others do, and returns one outcome for each
  subscriber, fulfilled exactly where the transport delivered. When, in addition, none of
  the deletions of the batch is rejected, the subscribers are records of the collection
  and the collection has one record for each endpoint, the subscribers that remain
  stored are those whose push did not fail permanently: of three subscribers with one
  permanent failure and two deliveries, three outcomes are returned and two records
  remain.
\<close>

theorem batch_outcomes:
  "sendBatchNotifications env [] p st = (None, st)
   \<and> (subs \<noteq> [] \<longrightarrow>
        (\<exists>rs. fst (sendBatchNotifications env subs p st) = Some rs
            \<and> length rs = length subs
            \<and> map (\<lambda>r. r = Fulfilled) rs = map (\<lambda>s. webpush env (endpoint s) p = Delivered) subs)
        \<and> sent (snd (sendBatchNotifications env subs p st)) =
            sent st @ map (\<lambda>s. (endpoint s, p)) subs)
   \<and> (subs \<noteq> []
        \<and> (\<forall>n. calls st \<le> n \<and> n < calls st + length subs \<longrightarrow> \<not> store_down env n)
        \<and> distinct (map endpoint (docs st)) \<and> set subs \<subseteq> set (docs st) \<longrightarrow>
        filter (\<lambda>s. s \<in> set (docs (snd (sendBatchNotifications env subs p st)))) subs =
          filter (\<lambda>s. \<not> permanent (webpush env (endpoint s) p)) subs
        \<and> length (filter (\<lambda>s. s \<in> set (docs (snd (sendBatchNotifications env subs p st)))) subs) =
            length subs - length (filter (\<lambda>s. permanent (webpush env (endpoint s) p)) subs))"
proof (intro conjI impI)
  show "sendBatchNotifications env [] p st = (None, st)"
    by (simp add: sendBatchNotifications_def)
next
  assume ne: "subs \<noteq> []"
  have "fst (sendBatchNotifications env subs p st) = Some (fst (deliver_all env subs p st))"
    using ne by (simp add: fst_sendBatchNotifications)
  then show "\<exists>rs. fst (sendBatchNotifications env subs p st) = Some rs
      \<and> length rs = length subs
      \<and> map (\<lambda>r. r = Fulfilled) rs = map (\<lambda>s. webpush env (endpoint s) p = Delivered) subs"
    using length_deliver_all [of env subs p st] fulfilled_deliver_all [of env subs p st]
    by simp
  show "sent (snd (sendBatchNotifications env subs p st)) = sent st @ map (\<lambda>s. (endpoint s, p)) subs"
    by (simp add: snd_sendBatchNotifications sent_deliver_all)
next
  assume a: "subs \<noteq> []
      \<and> (\<forall>n. calls st \<le> n \<and> n < calls st + length subs \<longrightarrow> \<not> store_down env n)
      \<and> distinct (map endpoint (docs st)) \<and> set subs \<subseteq> set (docs st)"
  then have d: "docs (snd (sendBatchNotifications env subs p st)) =
      filter (\<lambda>d. \<not> (\<exists>s \<in> set subs. endpoint s = endpoint d
                         \<and> permanent (webpush env (endpoint s) p))) (docs st)"
    unfolding snd_sendBatchNotifications by (intro docs_deliver_all_carried) simp_all
  show kept: "filter (\<lambda>s. s \<in> set (docs (snd (sendBatchNotifications env subs p st)))) subs =
      filter (\<lambda>s. \<not> permanent (webpush env (endpoint s) p)) subs"
    unfolding d using a by (intro filter_cong) auto
  have "length (filter (\<lambda>s. permanent (webpush env (endpoint s) p)) subs)
      + length (filter (\<lambda>s. \<not> permanent (webpush env (endpoint s) p)) subs) = length subs"
    by (rule sum_length_filter_compl)
  then show "length (filter (\<lambda>s. s \<in> set (docs (snd (sendBatchNotifications env subs p st)))) subs) =
      length subs - length (filter (\<lambda>s. permanent (webpush env (endpoint s) p)) subs)"
    unfolding kept by simp
qed

theorem batch_outcomes_witness:
  "length (docs state_ex) = 3
   \<and> map (\<lambda>s. webpush env_two (endpoint s) (cycleFailure (js ''L''))) (docs state_ex) =
       [PushFailed (Some 410), Delivered, Delivered]
   \<and> fst (sendBatchNotifications env_two (docs state_ex) (cycleFailure (js ''L'')) state_ex) =
       Some [Rejected (PushError (Some 410)), Fulfilled, Fulfilled]
   \<and> length (sent (snd (sendBatchNotifications env_two (docs state_ex) (cycleFailure (js ''L'')) state_ex))) = 3
   \<and> length (filter (\<lambda>s. s \<in> set (docs (snd (sendBatchNotifications env_two (docs state_ex)
                 (cycleFailure (js ''L'')) state_ex)))) (docs state_ex)) = 2"
proof -
  have w: "webpush env_two e p = (if e = js ''a'' then PushFailed (Some 410) else Delivered)" for e p
    by (simp add: env_two_def)
  have d: "\<not> store_down env_two n" for n
    by (simp add: env_two_def env_ex_def)
  have e: "endpoint (doc_ex i x l) = js x" for i x l
    by (simp add: doc_ex_def)
  have ne: "js ''b'' \<noteq> js ''a''" "js ''c'' \<noteq> js ''a''" "js ''b'' \<noteq> js ''c''"
    by (simp_all add: js_def)
  have s: "docs state_ex = [doc_ex 1 ''a'' ''L'', doc_ex 2 ''b'' ''P,Q,R'', doc_ex 3 ''c'' ''L'']"
    by (simp add: state_ex_def)
  have fst: "fst (sendBatchNotifications env_two (docs state_ex) (cycleFailure (js ''L'')) state_ex) =
      Some [Rejected (PushError (Some 410)), Fulfilled, Fulfilled]"
    by (simp add: w d e ne s sendBatchNotifications_def deliver_def deleteOne_def Let_def)
  have pre: "docs state_ex \<noteq> []
      \<and> (\<forall>n. calls state_ex \<le> n \<and> n < calls state_ex + length (docs state_ex) \<longrightarrow> \<not> store_down env_two n)
      \<and> distinct (map endpoint (docs state_ex)) \<and> set (docs state_ex) \<subseteq> set (docs state_ex)"
    using ne by (simp add: d s e)
  have perm: "length (filter (\<lambda>s. permanent (webpush env_two (endpoint s) (cycleFailure (js ''L''))))
      (docs state_ex)) = 1"
    by (simp add: w e ne s permanent_def)
  from batch_outcomes [of env_two "cycleFailure (js ''L'')" state_ex "docs state_ex"] pre
  have snt: "sent (snd (sendBatchNotifications env_two (docs state_ex) (cycleFailure (js ''L'')) state_ex)) =
      sent state_ex @ map (\<lambda>s. (endpoint s, cycleFailure (js ''L''))) (docs state_ex)"
    and kept: "length (filter (\<lambda>s. s \<in> set (docs (snd (sendBatchNotifications env_two (docs state_ex)
        (cycleFailure (js ''L'')) state_ex)))) (docs state_ex)) =
      length (docs state_ex)
        - length (filter (\<lambda>s. permanent (webpush env_two (endpoint s) (cycleFailure (js ''L''))))
            (docs state_ex))"
    by blast+
  have three: "length (docs state_ex) = 3" by (simp add: s)
  have "sent state_ex = []" by (simp add: state_ex_def)
  then have "length (sent (snd (sendBatchNotifications env_two (docs state_ex) (cycleFailure (js ''L'')) state_ex))) = 3"
    unfolding snt using three by simp
  moreover have "map (\<lambda>s. webpush env_two (endpoint s) (cycleFailure (js ''L''))) (docs state_ex) =
      [PushFailed (Some 410), Delivered, Delivered]"
    by (simp add: w e ne s)
  ultimately show ?thesis
    using fst three kept perm by simp
qed







subsection \<open>Unique endpoints\<close>

lemma docs_sendNotification_cases:
  "docs (snd (sendNotification env e p st)) = docs st
   \<or> docs (snd (sendNotification env e p st)) = delete_docs e (docs st)"
  by (simp add: sendNotification_def deleteOne_def Let_def
      split: push_result.splits prod.splits sum.splits)

lemma distinct_sendNotification:
  "distinct (map endpoint (docs st)) \<Longrightarrow>
   distinct (map endpoint (docs (snd (sendNotification env e p st))))"
  using docs_sendNotification_cases [of env e p st] distinct_delete_docs [of "docs st" e]
  by auto

lemma sendWeatherUpdateForSubscription_cases:
  "snd (sendWeatherUpdateForSubscription env e l st) = snd (updateLocation env 1 l st)
   \<or> snd (sendWeatherUpdateForSubscription env e l st) =
       snd (sendNotification env e (subscribeFailure l) (snd (updateLocation env 1 l st)))"
  by (simp add: sendWeatherUpdateForSubscription_def split: prod.splits sum.splits)

lemma distinct_sendWeatherUpdateForSubscription:
  assumes "distinct (map endpoint (docs st))"
  shows "distinct (map endpoint (docs (snd (sendWeatherUpdateForSubscription env e l st))))"
proof -
  have 1: "distinct (map endpoint (docs (snd (updateLocation env 1 l st))))"
    using assms by (rule distinct_updateLocation)
  then have "distinct (map endpoint (docs (snd (sendNotification env e (subscribeFailure l)
      (snd (updateLocation env 1 l st))))))"
    by (rule distinct_sendNotification)
  then show ?thesis
    using 1 sendWeatherUpdateForSubscription_cases [of env e l st] by auto
qed

lemma subscribe_upsert_valid:
  assumes "subscription_field body = Some sub" and "endpoint_field sub = Some e" and "e \<noteq> []"
    and "keys_field sub = Some k" and "location_field body = JString l"
    and "\<not> store_down env (calls st)"
  shows "subscribe_upsert env body st =
     (Inr (e, normalizeLocation l),
      st\<lparr>docs := upsert_docs e (subDoc (now env) e k (normalizeLocation l)) (new_id env) (docs st),
         calls := calls st + 1\<rparr>)"
  using assms by (simp add: subscribe_upsert_def updateOne_def Let_def)

lemma endpoint_subDoc [simp]: "endpoint (subDoc t e k l) = e"
  by (simp add: subDoc_def)

lemma docs_subscribe_upsert_cases:
  "docs (snd (subscribe_upsert env body st)) = docs st
   \<or> (\<exists>e s. endpoint s = e \<and> docs (snd (subscribe_upsert env body st)) =
         upsert_docs e s (new_id env) (docs st))"
proof (cases "\<exists>sub e k l. subscription_field body = Some sub \<and> endpoint_field sub = Some e
    \<and> e \<noteq> [] \<and> keys_field sub = Some k \<and> location_field body = JString l
    \<and> \<not> store_down env (calls st)")
  case True
  then obtain sub e k l where "subscription_field body = Some sub" "endpoint_field sub = Some e"
      "e \<noteq> []" "keys_field sub = Some k" "location_field body = JString l"
      "\<not> store_down env (calls st)"
    by blast
  then have "docs (snd (subscribe_upsert env body st)) =
      upsert_docs e (subDoc (now env) e k (normalizeLocation l)) (new_id env) (docs st)"
    by (simp add: subscribe_upsert_valid)
  moreover have "endpoint (subDoc (now env) e k (normalizeLocation l)) = e" by simp
  ultimately show ?thesis by blast
next
  case False
  then have "docs (snd (subscribe_upsert env body st)) = docs st"
    by (auto simp: subscribe_upsert_def updateOne_def Let_def
        split: option.splits json.splits prod.splits sum.splits if_splits)
  then show ?thesis by simp
qed

lemma distinct_subscribe_upsert:
  "distinct (map endpoint (docs st)) \<Longrightarrow>
   distinct (map endpoint (docs (snd (subscribe_upsert env body st))))"
  using docs_subscribe_upsert_cases [of env body st] distinct_upsert_docs [of _ _ "docs st"]
  by auto

lemma post_subscribe_cases:
  "snd (post_subscribe env body st) = snd (subscribe_upsert env body st)
   \<or> (\<exists>e l. snd (post_subscribe env body st) =
         snd (sendWeatherUpdateForSubscription env e l (snd (subscribe_upsert env body st))))"
proof (cases "subscribe_upsert env body st")
  case (Pair r st1)
  show ?thesis
  proof (cases r)
    case (Inl a)
    then show ?thesis using Pair by (simp add: post_subscribe_def)
  next
    case (Inr x)
    obtain e l where x: "x = (e, l)" by (cases x)
    have "snd (post_subscribe env body st) = snd (sendWeatherUpdateForSubscription env e l st1)"
      using Pair Inr x
      by (cases "sendWeatherUpdateForSubscription env e l st1")
        (simp add: post_subscribe_def split: sum.splits)
    then show ?thesis using Pair by auto
  qed
qed

lemma distinct_post_subscribe:
  assumes "distinct (map endpoint (docs st))"
  shows "distinct (map endpoint (docs (snd (post_subscribe env body st))))"
proof -
  have 1: "distinct (map endpoint (docs (snd (subscribe_upsert env body st))))"
    using assms by (rule distinct_subscribe_upsert)
  from post_subscribe_cases [of env body st] show ?thesis
  proof (elim disjE exE)
    assume "snd (post_subscribe env body st) = snd (subscribe_upsert env body st)"
    then show ?thesis using 1 by simp
  next
    fix e l
    assume "snd (post_subscribe env body st) =
        snd (sendWeatherUpdateForSubscription env e l (snd (subscribe_upsert env body st)))"
    then show ?thesis
      using distinct_sendWeatherUpdateForSubscription [OF 1, of env e l] by simp
  qed
qed

lemma distinct_delete_subscribe:
  "distinct (map endpoint (docs st)) \<Longrightarrow>
   distinct (map endpoint (docs (snd (delete_subscribe env e st))))"
  by (auto simp: delete_subscribe_def deleteOne_def distinct_delete_docs
      split: option.splits)

lemma docs_subscribe_check: "docs (snd (subscribe_check env e st)) = docs st"
  by (auto simp: subscribe_check_def findOne_def split: option.splits)

lemma distinct_processLocations:
  "distinct (map endpoint (docs st)) \<Longrightarrow>
   distinct (map endpoint (docs (processLocations env m st)))"
proof (induction m arbitrary: st)
  case Nil
  then show ?case by simp
next
  case (Cons g m)
  obtain l subs where g: "g = (l, subs)" by (cases g)
  have "distinct (map endpoint (docs (processLocation env l subs st)))"
    using Cons.prems by (rule distinct_processLocation)
  then show ?case using Cons.IH g by simp
qed

lemma distinct_sendTwoHourWeatherUpdates:
  assumes "distinct (map endpoint (docs st))"
  shows "distinct (map endpoint (docs (sendTwoHourWeatherUpdates env st)))"
proof -
  have 1: "docs (snd (getAllSubscriptions env st)) = docs st"
    by (simp add: getAllSubscriptions_def find_all_def)
  then have "distinct (map endpoint (docs (snd (getAllSubscriptions env st))))"
    using assms by simp
  then have 2: "distinct (map endpoint (docs (processLocations env m (snd (getAllSubscriptions env st)))))" for m
    by (rule distinct_processLocations)
  show ?thesis
  proof (cases "getAllSubscriptions env st")
    case (Pair allSubs st1)
    then show ?thesis
      using assms 1 2 [of "locationsMap allSubs"] by (simp add: sendTwoHourWeatherUpdates_def)
  qed
qed

text \<open>
  Claim C3. A subscribe request whose endpoint already has a record makes the upsert
  replace that record where it is (location and keys updated): the number of records is
  unchanged. No two records share an endpoint: each of the handlers and the scheduler's
  cycle keeps the endpoints of the collection distinct.
\<close>

theorem upsert_in_place:
  "(subscription_field body = Some sub \<and> endpoint_field sub = Some e \<and> e \<noteq> []
      \<and> keys_field sub = Some k \<and> location_field body = JString l
      \<and> \<not> store_down env (calls st) \<and> findOne_docs e (docs st) = Some old \<longrightarrow>
      (\<exists>i < length (docs st). docs st ! i = old
          \<and> docs (snd (subscribe_upsert env body st)) =
              (docs st)[i := set_fields (subDoc (now env) e k (normalizeLocation l)) old])
      \<and> length (docs (snd (subscribe_upsert env body st))) = length (docs st)
      \<and> location (set_fields (subDoc (now env) e k (normalizeLocation l)) old) = normalizeLocation l
      \<and> keys (set_fields (subDoc (now env) e k (normalizeLocation l)) old) = k
      \<and> doc_id (set_fields (subDoc (now env) e k (normalizeLocation l)) old) = doc_id old)
   \<and> (distinct (map endpoint (docs st)) \<longrightarrow>
        distinct (map endpoint (docs (snd (subscribe_upsert env body st))))
        \<and> distinct (map endpoint (docs (snd (post_subscribe env body st))))
        \<and> distinct (map endpoint (docs (snd (delete_subscribe env e' st))))
        \<and> distinct (map endpoint (docs (snd (subscribe_check env e' st))))
        \<and> distinct (map endpoint (docs (sendTwoHourWeatherUpdates env st))))"
proof (intro conjI impI)
  assume a: "subscription_field body = Some sub \<and> endpoint_field sub = Some e \<and> e \<noteq> []
      \<and> keys_field sub = Some k \<and> location_field body = JString l
      \<and> \<not> store_down env (calls st) \<and> findOne_docs e (docs st) = Some old"
  let ?s = "subDoc (now env) e k (normalizeLocation l)"
  have d: "docs (snd (subscribe_upsert env body st)) = upsert_docs e ?s (new_id env) (docs st)"
    using a by (simp add: subscribe_upsert_valid)
  obtain i where i: "i < length (docs st)" "docs st ! i = old"
      "upsert_docs e ?s (new_id env) (docs st) = (docs st)[i := set_fields ?s old]"
    using upsert_docs_existing [of e "docs st" old ?s "new_id env"] a by blast
  show "\<exists>i < length (docs st). docs st ! i = old
      \<and> docs (snd (subscribe_upsert env body st)) = (docs st)[i := set_fields ?s old]"
    using i d by auto
  show "length (docs (snd (subscribe_upsert env body st))) = length (docs st)"
    using i d by simp
  show "location (set_fields ?s old) = normalizeLocation l"
    by (simp add: set_fields_def subDoc_def)
  show "keys (set_fields ?s old) = k"
    by (simp add: set_fields_def subDoc_def)
  show "doc_id (set_fields ?s old) = doc_id old"
    by (simp add: set_fields_def)
next
  assume dist: "distinct (map endpoint (docs st))"
  show "distinct (map endpoint (docs (snd (subscribe_upsert env body st))))"
    using dist by (rule distinct_subscribe_upsert)
  show "distinct (map endpoint (docs (snd (post_subscribe env body st))))"
    using dist by (rule distinct_post_subscribe)
  show "distinct (map endpoint (docs (snd (delete_subscribe env e' st))))"
    using dist by (rule distinct_delete_subscribe)
  show "distinct (map endpoint (docs (snd (subscribe_check env e' st))))"
    using dist by (simp add: docs_subscribe_check)
  show "distinct (map endpoint (docs (sendTwoHourWeatherUpdates env st)))"
    using dist by (rule distinct_sendTwoHourWeatherUpdates)
qed

lemma normalize_ex: "normalizeLocation (js ''X , Y, Z'') = js ''X,Y,Z''"
  by (simp add: js_def is_space_def comma_def normalizeLocation.simps(2))

theorem upsert_in_place_witness:
  "length (docs (snd (subscribe_upsert env_ex (body_ex ''b'' (JString (js ''X , Y, Z''))) state_old))) = 2
   \<and> map endpoint (docs (snd (subscribe_upsert env_ex (body_ex ''b'' (JString (js ''X , Y, Z''))) state_old)))
       = [js ''a'', js ''b'']
   \<and> map location (docs (snd (subscribe_upsert env_ex (body_ex ''b'' (JString (js ''X , Y, Z''))) state_old)))
       = [js ''L'', js ''X,Y,Z'']
   \<and> distinct (map endpoint (docs (snd (post_subscribe env_ex (body_ex ''b'' (JString (js ''X , Y, Z''))) state_old))))"
proof -
  have pre: "subscription_field (body_ex ''b'' (JString (js ''X , Y, Z''))) =
        Some \<lparr>endpoint_field = Some (js ''b''), keys_field = Some keys_ex\<rparr>
      \<and> endpoint_field \<lparr>endpoint_field = Some (js ''b''), keys_field = Some keys_ex\<rparr> = Some (js ''b'')
      \<and> js ''b'' \<noteq> []
      \<and> keys_field \<lparr>endpoint_field = Some (js ''b''), keys_field = Some keys_ex\<rparr> = Some keys_ex
      \<and> location_field (body_ex ''b'' (JString (js ''X , Y, Z''))) = JString (js ''X , Y, Z'')
      \<and> \<not> store_down env_ex (calls state_old)
      \<and> findOne_docs (js ''b'') (docs state_old) = Some old_ex"
    by (simp add: body_ex_def state_old_def old_ex_def ex_defs)
  have dist: "distinct (map endpoint (docs state_old))"
    by (simp add: state_old_def old_ex_def ex_defs)
  have nth: "i < 2 \<Longrightarrow> docs state_old ! i = old_ex \<Longrightarrow> i = 1" for i
    by (cases i) (auto simp: state_old_def old_ex_def doc_ex_def js_def)
  from upsert_in_place [of "body_ex ''b'' (JString (js ''X , Y, Z''))"
      "\<lparr>endpoint_field = Some (js ''b''), keys_field = Some keys_ex\<rparr>" "js ''b''" keys_ex
      "js ''X , Y, Z''" env_ex state_old old_ex "Some (js ''b'')"] pre dist
  obtain i where i: "i < length (docs state_old)" "docs state_old ! i = old_ex"
      "docs (snd (subscribe_upsert env_ex (body_ex ''b'' (JString (js ''X , Y, Z''))) state_old)) =
        (docs state_old)[i := set_fields (subDoc (now env_ex) (js ''b'') keys_ex
            (normalizeLocation (js ''X , Y, Z''))) old_ex]"
    and d: "distinct (map endpoint (docs (snd (post_subscribe env_ex
        (body_ex ''b'' (JString (js ''X , Y, Z''))) state_old))))"
    by blast
  have "i = 1" using i(1,2) nth by (simp add: state_old_def)
  then show ?thesis
    using i(3) d by (simp add: state_old_def set_fields_def subDoc_def normalize_ex doc_ex_def)
qed

text \<open>
  Claim C9. On a re-subscribe the upsert writes every field of the record, not only
  location and keys: \<open>createdAt\<close> becomes the current time, \<open>lastNotified\<close>
  becomes null and \<open>nextNotificationTime\<close> is computed from the current time, whatever
  the record held before. Of the fields of the model only the \<^verbatim>\<open>_id\<close> of the
  collection stays.
\<close>

theorem resubscribe_resets_record:
  assumes "subscription_field body = Some sub" and "endpoint_field sub = Some e" and "e \<noteq> []"
    and "keys_field sub = Some k" and "location_field body = JString l"
    and "\<not> store_down env (calls st)" and "findOne_docs e (docs st) = Some old"
  shows "\<exists>d. findOne_docs e (docs (snd (subscribe_upsert env body st))) = Some d
      \<and> endpoint d = e \<and> keys d = k \<and> location d = normalizeLocation l
      \<and> createdAt d = now env \<and> lastNotified d = None
      \<and> nextNotificationTime d = calculateNextNotificationTime (now env)
      \<and> doc_id d = doc_id old"
proof -
  let ?s = "subDoc (now env) e k (normalizeLocation l)"
  have "docs (snd (subscribe_upsert env body st)) = upsert_docs e ?s (new_id env) (docs st)"
    using assms by (simp add: subscribe_upsert_valid)
  then have "findOne_docs e (docs (snd (subscribe_upsert env body st))) = Some (set_fields ?s old)"
    using findOne_docs_upsert [of ?s e "docs st" old "new_id env"] assms(7) by simp
  then show ?thesis
    by (simp add: set_fields_def subDoc_def)
qed

theorem resubscribe_resets_record_witness:
  "findOne_docs (js ''b'') (docs state_old) = Some old_ex
   \<and> lastNotified old_ex = Some (clock 0 12 0)
   \<and> (\<exists>d. findOne_docs (js ''b'')
          (docs (snd (subscribe_upsert env_ex (body_ex ''b'' (JString (js ''X , Y, Z''))) state_old))) = Some d
        \<and> location d = js ''X,Y,Z'' \<and> createdAt d = clock 0 13 45 \<and> lastNotified d = None
        \<and> nextNotificationTime d = clock 0 15 0 \<and> doc_id d = 2)"
proof -
  have f: "findOne_docs (js ''b'') (docs state_old) = Some old_ex"
    by (simp add: state_old_def old_ex_def ex_defs)
  have n: "calculateNextNotificationTime (clock 0 13 45) = clock 0 15 0"
    by (simp add: calculateNextNotificationTime_def setHours_def clock_def getHours_def
        msPerDay_def msPerHour_def)
  have "\<exists>d. findOne_docs (js ''b'')
        (docs (snd (subscribe_upsert env_ex (body_ex ''b'' (JString (js ''X , Y, Z''))) state_old))) = Some d
      \<and> endpoint d = js ''b'' \<and> keys d = keys_ex \<and> location d = normalizeLocation (js ''X , Y, Z'')
      \<and> createdAt d = now env_ex \<and> lastNotified d = None
      \<and> nextNotificationTime d = calculateNextNotificationTime (now env_ex)
      \<and> doc_id d = doc_id old_ex"
  proof (rule resubscribe_resets_record [OF _ _ _ _ _ _ f])
    show "subscription_field (body_ex ''b'' (JString (js ''X , Y, Z''))) =
        Some \<lparr>endpoint_field = Some (js ''b''), keys_field = Some keys_ex\<rparr>"
      by (simp add: body_ex_def)
    show "endpoint_field \<lparr>endpoint_field = Some (js ''b''), keys_field = Some keys_ex\<rparr> = Some (js ''b'')"
      by simp
    show "js ''b'' \<noteq> []" by (simp add: js_def)
    show "keys_field \<lparr>endpoint_field = Some (js ''b''), keys_field = Some keys_ex\<rparr> = Some keys_ex"
      by simp
    show "location_field (body_ex ''b'' (JString (js ''X , Y, Z''))) = JString (js ''X , Y, Z'')"
      by (simp add: body_ex_def)
    show "\<not> store_down env_ex (calls state_old)" by (simp add: env_ex_def)
  qed
  moreover have "now env_ex = clock 0 13 45" by (simp add: env_ex_def)
  moreover have "doc_id old_ex = 2" "lastNotified old_ex = Some (clock 0 12 0)"
    by (simp_all add: old_ex_def doc_ex_def)
  ultimately show ?thesis
    using f n by (auto simp: normalize_ex)
qed

text \<open>
  Claim C10. A subscribe request with endpoint and keys whose location is absent or is
  not a string is answered 500, not 400, and leaves the state as it was: the
  normalization throws before the upsert is reached.
\<close>

theorem subscribe_without_location:
  assumes "subscription_field body = Some sub" and "endpoint_field sub = Some e" and "e \<noteq> []"
    and "keys_field sub = Some k" and "\<forall>l. location_field body \<noteq> JString l"
  shows "fst (post_subscribe env body st) =
           \<lparr>status = 500, reply = ErrorMessage ''Internal server error''\<rparr>
       \<and> snd (post_subscribe env body st) = st"
  using assms
  by (cases "location_field body")
    (simp_all add: post_subscribe_def subscribe_upsert_def internalError_def)

theorem subscribe_without_location_witness:
  "status (fst (post_subscribe env_ex (body_ex ''n'' JUndefined) state_ex)) = 500
   \<and> snd (post_subscribe env_ex (body_ex ''n'' JUndefined) state_ex) = state_ex
   \<and> status (fst (post_subscribe env_ex (body_ex ''n'' (JNumber 3)) state_ex)) = 500
   \<and> snd (post_subscribe env_ex (body_ex ''n'' (JNumber 3)) state_ex) = state_ex"
proof -
  have ne: "js ''n'' \<noteq> []" by (simp add: js_def)
  show ?thesis
    using subscribe_without_location [of "body_ex ''n'' JUndefined"
        "\<lparr>endpoint_field = Some (js ''n''), keys_field = Some keys_ex\<rparr>" "js ''n''" keys_ex
        env_ex state_ex]
      subscribe_without_location [of "body_ex ''n'' (JNumber 3)"
        "\<lparr>endpoint_field = Some (js ''n''), keys_field = Some keys_ex\<rparr>" "js ''n''" keys_ex
        env_ex state_ex] ne
    by (simp add: body_ex_def)
qed

lemma fetchWeatherData_short:
  "length (split_comma l) < 3 \<Longrightarrow> fetchWeatherData env l = Inl TypeError"
  by (auto simp: fetchWeatherData_def split: list.splits)

lemma fetchWeatherData_three:
  "split_comma l = city # region # country # rest \<Longrightarrow>
   fetchWeatherData env l =
     (case weather_api env (trim city) (trim region) (trim country) of
        None \<Rightarrow> Inl UpstreamError
      | Some w \<Rightarrow> Inr w)"
  by (simp add: fetchWeatherData_def)

text \<open>
  Claim C7. The claim is that a location of one, two or three parts is decomposed and
  the request is made, an absent part being tolerated. The code calls \<^verbatim>\<open>trim\<close> on
  the second and third part without a check: with fewer than three parts it throws a
  TypeError before the request, whatever the weather route would have answered. With
  three parts (or more) the request is made with the first three, trimmed.
\<close>

theorem fetchWeatherData_absent_parts:
  "fetchWeatherData env (js ''London'') = Inl TypeError
   \<and> fetchWeatherData env (js ''London, UK'') = Inl TypeError"
  by (simp add: fetchWeatherData_def js_def comma_def)

lemma sendWeatherUpdateForSubscription_ok:
  assumes "\<not> permanent (webpush env e (subscribeFailure l)) \<or> (\<forall>n. \<not> store_down env n)"
  shows "fst (sendWeatherUpdateForSubscription env e l st) = Inr ()"
proof (cases "updateLocation env 1 l st")
  case (Pair r st1)
  show ?thesis
  proof (cases r)
    case (Inr u)
    then show ?thesis using Pair by (simp add: sendWeatherUpdateForSubscription_def)
  next
    case (Inl err)
    have "\<exists>b. fst (sendNotification env e (subscribeFailure l) st1) = Inr b"
      using assms
      by (auto simp: sendNotification_def deleteOne_def permanent_def Let_def
          split: push_result.splits)
    then show ?thesis
      using Pair Inl
      by (cases "sendNotification env e (subscribeFailure l) st1")
        (auto simp: sendWeatherUpdateForSubscription_def)
  qed
qed

lemma post_subscribe_created:
  assumes "subscribe_upsert env body st = (Inr (e, l), st1)"
    and "\<not> permanent (webpush env e (subscribeFailure l)) \<or> (\<forall>n. \<not> store_down env n)"
  shows "fst (post_subscribe env body st) = \<lparr>status = 201, reply = Success\<rparr>"
  using assms(1) sendWeatherUpdateForSubscription_ok [OF assms(2), of st1]
  by (cases "sendWeatherUpdateForSubscription env e l st1")
    (simp add: post_subscribe_def created_def)

text \<open>
  Claim C8. The claim is that the response is 201 once the upsert has succeeded,
  whatever happens in the notification that follows. The errors of that notification
  are caught, with one exception: when the weather update fails and the failure
  notification is answered 410 or 404, \<open>sendNotification\<close> awaits the
  \<^verbatim>\<open>deleteOne\<close> inside its \<^verbatim>\<open>catch\<close> block; if the collection rejects that
  call, the error reaches the handler's \<^verbatim>\<open>catch\<close> and the response is 500, with
  the new record stored.
\<close>

theorem post_subscribe_500_after_upsert:
  "fst (subscribe_upsert env_down (body_ex ''n'' (JString (js ''X , Y, Z''))) state_empty) =
     Inr (js ''n'', js ''X,Y,Z'')
   \<and> status (fst (post_subscribe env_down (body_ex ''n'' (JString (js ''X , Y, Z''))) state_empty)) = 500
   \<and> map endpoint (docs (snd (post_subscribe env_down (body_ex ''n'' (JString (js ''X , Y, Z''))) state_empty)))
       = [js ''n'']"
proof -
  have up: "subscribe_upsert env_down (body_ex ''n'' (JString (js ''X , Y, Z''))) state_empty =
      (Inr (js ''n'', js ''X,Y,Z''),
       \<lparr>docs = [insert_doc (subDoc (clock 0 13 45) (js ''n'') keys_ex (js ''X,Y,Z'')) 7],
         sent = [], calls = 1\<rparr>)"
    by (simp add: subscribe_upsert_def updateOne_def body_ex_def env_down_def env_ex_def
        state_empty_def normalize_ex js_def [of "''n''"] Let_def)
  have s: "split_comma (js ''X,Y,Z'') = [js ''X'', js ''Y'', js ''Z'']"
    by (simp add: js_def comma_def)
  have t: "trim (js ''X'') = js ''X''"
    by (simp add: trim_def js_def is_space_def)
  have x: "js ''X'' \<noteq> js ''P''" by (simp add: js_def)
  have h: "hourlyData env_down 1 (js ''X,Y,Z'') = Inl UpstreamError"
    by (simp add: hourlyData_def fetchWeatherData_def s t x env_down_def env_ex_def)
  have w: "webpush env_down e p = PushFailed (Some 410)" for e p
    by (simp add: env_down_def)
  have d: "store_down env_down (Suc 0)"
    by (simp add: env_down_def)
  show ?thesis
    by (simp add: post_subscribe_def up sendWeatherUpdateForSubscription_def updateLocation_def h
        sendNotification_def deleteOne_def Let_def internalError_def w d insert_doc_def subDoc_def)
qed

end
